(* ===== verification/Dhcplt_Prelude.thy ===== *)
theory Dhcplt_Prelude
  imports Main "HOL-Library.Word" "HOL-Library.Multiset"
begin

text \<open>
  What every component of the development shares: the outcome of a Go call, Go's
  machine integers and channels, and the interfaces stated as locales (a first-in
  first-out channel, an inductive invariant of a step relation, a measure of it, a refinement)
  with the lemmas that follow from them once and for all.
\<close>

named_theorems go_simps \<open>equations that evaluate the model's operations\<close>

section \<open>Outcomes of Go calls\<close>

text \<open>
  A Go function that returns \<open>(v, error)\<close> either returns a value, returns an error
  or panics (nil dereference, failed type assertion, send on a closed channel, a library
  function that panics on its argument).
\<close>

datatype ('e, 'a) gores = Ok (the_ok: 'a) | Fail 'e | Panic

primrec gbind :: "('e, 'a) gores \<Rightarrow> ('a \<Rightarrow> ('e, 'b) gores) \<Rightarrow> ('e, 'b) gores" where
  "gbind (Ok x) f = f x"
| "gbind (Fail e) f = Fail e"
| "gbind Panic f = Panic"

lemma gbind_eq_Ok [go_simps]: "gbind m f = Ok y \<longleftrightarrow> (\<exists>x. m = Ok x \<and> f x = Ok y)"
  by (cases m) auto

lemma gbind_eq_Panic [go_simps]:
  "gbind m f = Panic \<longleftrightarrow> m = Panic \<or> (\<exists>x. m = Ok x \<and> f x = Panic)"
  by (cases m) auto

lemma gbind_cong [fundef_cong]:
  "m = m' \<Longrightarrow> (\<And>x. m' = Ok x \<Longrightarrow> f x = g x) \<Longrightarrow> gbind m f = gbind m' g"
  by (cases m') auto

abbreviation is_ok :: "('e, 'a) gores \<Rightarrow> bool" where
  "is_ok r \<equiv> (\<exists>x. r = Ok x)"

section \<open>Machine integers and time\<close>

type_synonym byte = "8 word"
type_synonym bytes = "8 word list"
type_synonym uint16 = "16 word"
type_synonym uint = "64 word"

text \<open>
  Values of \<open>int\<close>, \<open>int64\<close> and \<open>time.Duration\<close> are integers in the 64-bit
  two's complement range; \<open>wrap64\<close> is the wrap-around of their arithmetic.
\<close>

definition min_int64 :: int where "min_int64 = - (2 ^ 63)"
definition max_int64 :: int where "max_int64 = 2 ^ 63 - 1"

definition in_int64 :: "int \<Rightarrow> bool" where
  "in_int64 x \<longleftrightarrow> min_int64 \<le> x \<and> x \<le> max_int64"

definition wrap64 :: "int \<Rightarrow> int" where
  "wrap64 x = signed_take_bit 63 x"

lemma wrap64_in: "in_int64 x \<Longrightarrow> wrap64 x = x"
  by (simp add: in_int64_def min_int64_def max_int64_def wrap64_def
      signed_take_bit_int_eq_self)

lemma wrap64_range: "in_int64 (wrap64 x)"
  using signed_take_bit_int_greater_eq_minus_exp [of 63 x] signed_take_bit_int_less_exp [of 63 x]
  by (simp add: in_int64_def min_int64_def max_int64_def wrap64_def)

text \<open>
  A point in time is its distance in nanoseconds from Go's zero \<open>time.Time\<close>.
  \<open>Time.Sub\<close> saturates at the ends of the \<open>Duration\<close> range.
\<close>

type_synonym gotime = int

definition time_zero :: gotime where "time_zero = 0"

definition time_sub :: "gotime \<Rightarrow> gotime \<Rightarrow> int" where
  "time_sub t u = max min_int64 (min max_int64 (t - u))"

definition second :: int where "second = 1000000000"

lemma time_sub_le: "time_sub t u \<le> max_int64"
  by (simp add: time_sub_def min_int64_def max_int64_def)

lemma time_sub_in: "in_int64 (t - u) \<Longrightarrow> time_sub t u = t - u"
  by (simp add: time_sub_def in_int64_def)

section \<open>Lists\<close>

lemma list_all2_from: "list_all2 P xs ys \<Longrightarrow> y \<in> set ys \<Longrightarrow> \<exists>x \<in> set xs. P x y"
  by (induction rule: list_all2_induct) auto

lemma sum_list_update_add:
  fixes f :: "'a \<Rightarrow> 'b::comm_monoid_add"
  shows "i < length xs \<Longrightarrow>
    sum_list (map f (xs[i := y])) + f (xs ! i) = sum_list (map f xs) + f y"
proof (induction xs arbitrary: i)
  case (Cons x xs)
  show ?case
  proof (cases i)
    case 0
    then show ?thesis by (simp add: ac_simps)
  next
    case (Suc k)
    with Cons have "sum_list (map f (xs[k := y])) + f (xs ! k) = sum_list (map f xs) + f y" by simp
    with Suc show ?thesis by (simp add: add.assoc)
  qed
qed simp

section \<open>Go channels\<close>

text \<open>
  A buffered channel: what it holds (head is received first), its capacity, whether it
  has been closed. A send blocks while the buffer is full and panics on a closed channel;
  a receive drains the buffer first and then returns the zero value once closed.
\<close>

record 'a gochan =
  cbuf :: "'a list"
  ccap :: nat
  cclosed :: bool

definition make_chan :: "nat \<Rightarrow> 'a gochan" where
  "make_chan n = \<lparr>cbuf = [], ccap = n, cclosed = False\<rparr>"

datatype 'a sendres = Sent "'a gochan" | SendBlocks | SendPanics

definition chan_send :: "'a gochan \<Rightarrow> 'a \<Rightarrow> 'a sendres" where
  "chan_send c x =
     (if cclosed c then SendPanics
      else if length (cbuf c) < ccap c then Sent (c\<lparr>cbuf := cbuf c @ [x]\<rparr>)
      else SendBlocks)"

datatype 'a recvres = Recv 'a "'a gochan" | RecvZero | RecvBlocks

definition chan_recv :: "'a gochan \<Rightarrow> 'a recvres" where
  "chan_recv c =
     (case cbuf c of
        x # xs \<Rightarrow> Recv x (c\<lparr>cbuf := xs\<rparr>)
      | [] \<Rightarrow> if cclosed c then RecvZero else RecvBlocks)"

definition chan_close :: "'a gochan \<Rightarrow> (unit, 'a gochan) gores" where
  "chan_close c = (if cclosed c then Panic else Ok (c\<lparr>cclosed := True\<rparr>))"

definition chan_ok :: "'a gochan \<Rightarrow> bool" where
  "chan_ok c \<longleftrightarrow> length (cbuf c) \<le> ccap c"

lemma make_chan_ok [simp]: "chan_ok (make_chan n)"
  by (simp add: chan_ok_def make_chan_def)

lemma make_chan_sel [simp]:
  "cbuf (make_chan n) = []" "ccap (make_chan n) = n" "\<not> cclosed (make_chan n)"
  by (simp_all add: make_chan_def)

lemma chan_send_SentD:
  assumes "chan_send c x = Sent c'"
  shows "cbuf c' = cbuf c @ [x]" "ccap c' = ccap c" "\<not> cclosed c" "\<not> cclosed c'"
    "length (cbuf c) < ccap c"
  using assms by (auto simp: chan_send_def split: if_splits)

lemma chan_recv_RecvD:
  assumes "chan_recv c = Recv x c'"
  shows "cbuf c = x # cbuf c'" "ccap c' = ccap c" "cclosed c' = cclosed c"
  using assms by (auto simp: chan_recv_def split: list.splits if_splits)

section \<open>Interface: a first-in first-out channel\<close>

text \<open>
  The contract a client of a channel relies on, whatever state the channel lives in:
  \<open>push\<close> puts a value behind what is in flight, \<open>pop\<close> takes the oldest one, and
  no more than \<open>bound\<close> values are ever in flight.
\<close>

datatype 'a chan_op = Push 'a | Pop 'a

fun run_ops :: "('s \<Rightarrow> 'a \<Rightarrow> 's option) \<Rightarrow> ('s \<Rightarrow> ('a \<times> 's) option)
    \<Rightarrow> 's \<Rightarrow> 'a chan_op list \<Rightarrow> 's option" where
  "run_ops push pop s [] = Some s"
| "run_ops push pop s (Push x # ops) =
     (case push s x of None \<Rightarrow> None | Some s' \<Rightarrow> run_ops push pop s' ops)"
| "run_ops push pop s (Pop x # ops) =
     (case pop s of None \<Rightarrow> None
      | Some (y, s') \<Rightarrow> if y = x then run_ops push pop s' ops else None)"

fun pushed :: "'a chan_op list \<Rightarrow> 'a list" where
  "pushed [] = []"
| "pushed (Push x # ops) = x # pushed ops"
| "pushed (Pop x # ops) = pushed ops"

fun popped :: "'a chan_op list \<Rightarrow> 'a list" where
  "popped [] = []"
| "popped (Push x # ops) = popped ops"
| "popped (Pop x # ops) = x # popped ops"

locale fifo =
  fixes push :: "'s \<Rightarrow> 'a \<Rightarrow> 's option"
    and pop :: "'s \<Rightarrow> ('a \<times> 's) option"
    and view :: "'s \<Rightarrow> 'a list"
    and bound :: "'s \<Rightarrow> nat"
  assumes push_view: "push s x = Some s' \<Longrightarrow> view s' = view s @ [x]"
    and push_bound: "push s x = Some s' \<Longrightarrow> length (view s') \<le> bound s \<and> bound s' = bound s"
    and pop_view: "pop s = Some (y, s') \<Longrightarrow> view s = y # view s'"
    and pop_bound: "pop s = Some (y, s') \<Longrightarrow> bound s' = bound s"
    and pop_ready: "view s \<noteq> [] \<Longrightarrow> pop s \<noteq> None"
begin

text \<open>Whatever the interleaving, values come out in the order they went in.\<close>

lemma fifo_order:
  "run_ops push pop s ops = Some s' \<Longrightarrow> view s @ pushed ops = popped ops @ view s'"
proof (induction ops arbitrary: s)
  case (Cons op ops)
  show ?case
  proof (cases op)
    case (Push x)
    with Cons.prems obtain u where u: "push s x = Some u" "run_ops push pop u ops = Some s'"
      by (auto split: option.splits)
    from Cons.IH [OF u(2)] push_view [OF u(1)] Push show ?thesis by simp
  next
    case (Pop x)
    with Cons.prems obtain u where u: "pop s = Some (x, u)" "run_ops push pop u ops = Some s'"
      by (auto split: option.splits if_splits prod.splits)
    from Cons.IH [OF u(2)] pop_view [OF u(1)] Pop show ?thesis by simp
  qed
qed simp

lemma run_bound: "run_ops push pop s ops = Some s' \<Longrightarrow> bound s' = bound s"
proof (induction ops arbitrary: s)
  case (Cons op ops)
  then show ?case
    by (cases op) (auto dest!: push_bound pop_bound split: option.splits if_splits prod.splits)
qed simp

lemma in_flight_bound:
  "run_ops push pop s ops = Some s' \<Longrightarrow> length (view s) \<le> bound s
    \<Longrightarrow> length (view s') \<le> bound s'"
proof (induction ops arbitrary: s)
  case (Cons op ops)
  show ?case
  proof (cases op)
    case (Push x)
    with Cons.prems obtain u where u: "push s x = Some u" "run_ops push pop u ops = Some s'"
      by (auto split: option.splits)
    from Cons.IH [OF u(2)] push_bound [OF u(1)] show ?thesis by simp
  next
    case (Pop x)
    with Cons.prems obtain u where u: "pop s = Some (x, u)" "run_ops push pop u ops = Some s'"
      by (auto split: option.splits if_splits prod.splits)
    from Cons.IH [OF u(2)] pop_view [OF u(1)] pop_bound [OF u(1)] Cons.prems(2) show ?thesis
      by simp
  qed
qed simp

lemma no_loss:
  assumes "run_ops push pop s ops = Some s'" and "view s = []" and "view s' = []"
  shows "popped ops = pushed ops"
  using fifo_order [OF assms(1)] assms(2,3) by simp

end

text \<open>Go's own channels keep the contract.\<close>

definition chan_push :: "'a gochan \<Rightarrow> 'a \<Rightarrow> 'a gochan option" where
  "chan_push c x = (case chan_send c x of Sent c' \<Rightarrow> Some c' | _ \<Rightarrow> None)"

definition chan_pop :: "'a gochan \<Rightarrow> ('a \<times> 'a gochan) option" where
  "chan_pop c = (case chan_recv c of Recv x c' \<Rightarrow> Some (x, c') | _ \<Rightarrow> None)"

lemma chan_push_SomeD: "chan_push c x = Some c' \<Longrightarrow> chan_send c x = Sent c'"
  by (simp add: chan_push_def split: sendres.splits)

lemma chan_pop_SomeD: "chan_pop c = Some (x, c') \<Longrightarrow> chan_recv c = Recv x c'"
  by (simp add: chan_pop_def split: recvres.splits)

interpretation gochan_fifo: fifo chan_push chan_pop cbuf ccap
proof
  fix c c' :: "'a gochan" and x y
  show "chan_push c x = Some c' \<Longrightarrow> cbuf c' = cbuf c @ [x]"
    by (auto dest!: chan_push_SomeD chan_send_SentD(1))
  show "chan_push c x = Some c' \<Longrightarrow> length (cbuf c') \<le> ccap c \<and> ccap c' = ccap c"
    by (drule chan_push_SomeD) (simp add: chan_send_SentD(1,2) Suc_leI chan_send_SentD(5))
  show "chan_pop c = Some (y, c') \<Longrightarrow> cbuf c = y # cbuf c'"
    by (auto dest!: chan_pop_SomeD chan_recv_RecvD(1))
  show "chan_pop c = Some (y, c') \<Longrightarrow> ccap c' = ccap c"
    by (auto dest!: chan_pop_SomeD chan_recv_RecvD(2))
  show "cbuf c \<noteq> [] \<Longrightarrow> chan_pop c \<noteq> None"
    by (auto simp: chan_pop_def chan_recv_def split: list.splits)
qed

text \<open>
  The abstract channel: the values in flight and the capacity. A component that sends and
  receives on a channel among other things refines it on its sends and receives.
\<close>

fun buf_push :: "'a list \<times> nat \<Rightarrow> 'a \<Rightarrow> ('a list \<times> nat) option" where
  "buf_push (xs, n) x = (if length xs < n then Some (xs @ [x], n) else None)"

fun buf_pop :: "'a list \<times> nat \<Rightarrow> ('a \<times> 'a list \<times> nat) option" where
  "buf_pop ([], n) = None"
| "buf_pop (x # xs, n) = Some (x, xs, n)"

abbreviation chan_abs :: "'a gochan \<Rightarrow> 'a list \<times> nat" where
  "chan_abs c \<equiv> (cbuf c, ccap c)"

interpretation buffer_fifo: fifo buf_push buf_pop fst snd
proof
  fix s s' :: "'a list \<times> nat" and x y
  show "buf_push s x = Some s' \<Longrightarrow> fst s' = fst s @ [x]" by (cases s) (auto split: if_splits)
  show "buf_push s x = Some s' \<Longrightarrow> length (fst s') \<le> snd s \<and> snd s' = snd s"
    by (cases s) (auto split: if_splits)
  show "buf_pop s = Some (y, s') \<Longrightarrow> fst s = y # fst s'"
    by (cases s rule: buf_pop.cases) auto
  show "buf_pop s = Some (y, s') \<Longrightarrow> snd s' = snd s"
    by (cases s rule: buf_pop.cases) auto
  show "fst s \<noteq> [] \<Longrightarrow> buf_pop s \<noteq> None" by (cases s rule: buf_pop.cases) auto
qed

lemma chan_send_abs: "chan_send c x = Sent c' \<Longrightarrow> buf_push (chan_abs c) x = Some (chan_abs c')"
  using chan_send_SentD [of c x c'] by simp

lemma chan_recv_abs: "chan_recv c = Recv x c' \<Longrightarrow> buf_pop (chan_abs c) = Some (x, chan_abs c')"
  using chan_recv_RecvD [of c x c'] by simp

section \<open>Interface: an invariant of a step relation\<close>

locale step_invariant =
  fixes start :: "'s \<Rightarrow> bool"
    and step :: "'s \<Rightarrow> 's \<Rightarrow> bool"
    and inv :: "'s \<Rightarrow> bool"
  assumes inv_start: "start s \<Longrightarrow> inv s"
    and inv_step: "step s t \<Longrightarrow> inv s \<Longrightarrow> inv t"
begin

lemma inv_steps: "step\<^sup>*\<^sup>* s t \<Longrightarrow> inv s \<Longrightarrow> inv t"
  by (induction rule: rtranclp_induct) (auto intro: inv_step)

lemma inv_reachable: "start s \<Longrightarrow> step\<^sup>*\<^sup>* s t \<Longrightarrow> inv t"
  using inv_steps inv_start by blast

end

text \<open>A step relation with a decreasing measure as well: no run is longer than it.\<close>

locale terminating_steps = step_invariant +
  fixes rank :: "'a \<Rightarrow> nat"
  assumes rank_step: "step s t \<Longrightarrow> inv s \<Longrightarrow> rank t < rank s"
begin

lemma bounded_run: "(step ^^ n) s t \<Longrightarrow> inv s \<Longrightarrow> n + rank t \<le> rank s"
proof (induction n arbitrary: t)
  case 0
  then show ?case by simp
next
  case (Suc n)
  from Suc.prems(1) obtain u where u: "(step ^^ n) s u" "step u t" by auto
  have "inv u" using u(1) Suc.prems(2) inv_steps rtranclp_power by metis
  with Suc.IH [OF u(1) Suc.prems(2)] rank_step [OF u(2)] show ?case by simp
qed

end

section \<open>Interface: refinement of an abstract system\<close>

text \<open>
  Every step of the concrete system, in a state that keeps its invariant, is a step of the abstract
  one seen through \<open>view\<close>, or invisible there.
\<close>

locale refines = step_invariant +
  fixes spec_step :: "'b \<Rightarrow> 'b \<Rightarrow> bool"
    and view :: "'a \<Rightarrow> 'b"
  assumes simulates: "step s t \<Longrightarrow> inv s \<Longrightarrow> spec_step\<^sup>=\<^sup>= (view s) (view t)"
begin

lemma run_refines: "step\<^sup>*\<^sup>* s t \<Longrightarrow> inv s \<Longrightarrow> spec_step\<^sup>*\<^sup>* (view s) (view t)"
proof (induction rule: rtranclp_induct)
  case (step t u)
  then have "inv t" using inv_steps by blast
  with simulates [OF step(2)] step show ?case by (auto intro: rtranclp.rtrancl_into_rtrancl)
qed simp

lemma start_refines: "start s \<Longrightarrow> step\<^sup>*\<^sup>* s t \<Longrightarrow> spec_step\<^sup>*\<^sup>* (view s) (view t)"
  using run_refines inv_start by blast

end

end
