(* ===== verification/Go_Std.thy ===== *)
theory Go_Std
  imports Dhcplt_Prelude
begin

text \<open>
  The parts of Go's standard library the program calls on its own data: decimal and
  hexadecimal printing (\<open>fmt\<close>), \<open>strconv.Atoi\<close>, \<open>strings\<close>, big-endian
  integers (\<open>encoding/binary\<close>), \<open>net.HardwareAddr\<close> and the predicates of
  \<open>net/netip\<close>. A Go string is a sequence of bytes, here a \<open>char list\<close>.
\<close>

section \<open>Strings and byte slices\<close>

definition bytes_of_string :: "string \<Rightarrow> bytes" where
  "bytes_of_string s = map (\<lambda>c. word_of_nat (of_char c)) s"

definition string_of_bytes :: "bytes \<Rightarrow> string" where
  "string_of_bytes bs = map (\<lambda>b. char_of (unat b)) bs"

lemma of_char_less_256: "(of_char c :: nat) < 256"
  by simp

lemma unat_of_nat_byte: "n < 256 \<Longrightarrow> unat (word_of_nat n :: byte) = n"
  by (simp add: unat_of_nat)

lemma unat_byte_less: "unat (b :: byte) < 256"
  using unsigned_less [of b, where 'a = nat] by simp

lemma string_of_bytes_of_string [simp]: "string_of_bytes (bytes_of_string s) = s"
  by (simp add: string_of_bytes_def bytes_of_string_def comp_def
      unat_of_nat_byte [OF of_char_less_256])

lemma bytes_of_string_of_bytes [simp]: "bytes_of_string (string_of_bytes bs) = bs"
proof -
  have "(word_of_nat (of_char (char_of (unat b) :: char)) :: byte) = b" for b :: byte
    using unat_byte_less [of b] by (simp only: of_char_of) simp
  then show ?thesis by (simp add: string_of_bytes_def bytes_of_string_def comp_def)
qed

lemma bytes_of_string_inj: "bytes_of_string s = bytes_of_string t \<longleftrightarrow> s = t"
  by (metis string_of_bytes_of_string)

section \<open>Decimal numbers\<close>

text \<open>\<open>%d\<close> of a non-negative number, then of any integer.\<close>

definition digit :: "nat \<Rightarrow> char" where
  "digit d = char_of (48 + d)"

fun itoa_nat :: "nat \<Rightarrow> string" where
  "itoa_nat n = (if n < 10 then [digit n] else itoa_nat (n div 10) @ [digit (n mod 10)])"

declare itoa_nat.simps [simp del]

definition itoa :: "int \<Rightarrow> string" where
  "itoa i = (if i < 0 then CHR ''-'' # itoa_nat (nat (- i)) else itoa_nat (nat i))"

definition is_digit :: "char \<Rightarrow> bool" where
  "is_digit c \<longleftrightarrow> 48 \<le> (of_char c :: nat) \<and> (of_char c :: nat) \<le> 57"

fun parse_digits :: "nat \<Rightarrow> string \<Rightarrow> nat option" where
  "parse_digits acc [] = Some acc"
| "parse_digits acc (c # cs) =
     (if is_digit c then parse_digits (acc * 10 + (of_char c - 48)) cs else None)"

text \<open>
  \<open>strconv.Atoi\<close>: an optional sign, at least one decimal digit and nothing else, and a
  value that fits an \<open>int\<close>. The callers only look at whether there is an error.
\<close>

definition atoi :: "string \<Rightarrow> int option" where
  "atoi s =
     (let neg = (s \<noteq> [] \<and> hd s = CHR ''-'');
          signed = (s \<noteq> [] \<and> (hd s = CHR ''-'' \<or> hd s = CHR ''+''));
          ds = (if signed then tl s else s)
      in if ds = [] then None
         else case parse_digits 0 ds of
             None \<Rightarrow> None
           | Some n \<Rightarrow>
               let v = (if neg then - int n else int n)
               in if in_int64 v then Some v else None)"

lemma of_char_digit: "d < 10 \<Longrightarrow> (of_char (digit d) :: nat) = 48 + d"
  by (simp add: digit_def of_char_of)

lemma is_digit_digit [simp]: "d < 10 \<Longrightarrow> is_digit (digit d)"
  by (simp add: is_digit_def of_char_digit)

lemma itoa_nat_digits: "c \<in> set (itoa_nat n) \<Longrightarrow> is_digit c"
proof (induction n rule: itoa_nat.induct)
  case (1 n)
  then show ?case
    by (subst (asm) (2) itoa_nat.simps) (auto split: if_splits)
qed

lemma itoa_nat_nonempty [simp]: "itoa_nat n \<noteq> []"
  by (subst itoa_nat.simps) simp

lemma parse_digits_append:
  "parse_digits acc (xs @ ys) = Option.bind (parse_digits acc xs) (\<lambda>a. parse_digits a ys)"
  by (induction acc xs rule: parse_digits.induct) auto

lemma parse_digits_itoa_nat: "parse_digits 0 (itoa_nat n) = Some n"
proof (induction n rule: itoa_nat.induct)
  case (1 n)
  show ?case
  proof (cases "n < 10")
    case True
    then show ?thesis by (subst itoa_nat.simps) (simp add: of_char_digit)
  next
    case False
    with 1 have "parse_digits 0 (itoa_nat (n div 10)) = Some (n div 10)" by simp
    with False show ?thesis
      by (subst itoa_nat.simps) (simp add: parse_digits_append of_char_digit)
  qed
qed

lemma itoa_nat_inj: "itoa_nat m = itoa_nat n \<longleftrightarrow> m = n"
  using parse_digits_itoa_nat by (metis option.inject)

lemma itoa_nat_hd: "is_digit (hd (itoa_nat n))"
  using itoa_nat_digits [OF hd_in_set [OF itoa_nat_nonempty]] .

lemma not_digit_sign: "\<not> is_digit (CHR ''-'')" "\<not> is_digit (CHR ''+'')" "\<not> is_digit (CHR '':'')"
    "\<not> is_digit (CHR ''|'')" "\<not> is_digit (CHR ''@'')" "\<not> is_digit (CHR ''%'')"
  by (simp_all add: is_digit_def)

lemma atoi_itoa: "in_int64 i \<Longrightarrow> atoi (itoa i) = Some i"
proof (cases "i < 0")
  case True
  assume "in_int64 i"
  with True show ?thesis by (simp add: itoa_def atoi_def Let_def parse_digits_itoa_nat)
next
  case False
  assume i: "in_int64 i"
  have "hd (itoa_nat (nat i)) \<noteq> CHR ''-''" "hd (itoa_nat (nat i)) \<noteq> CHR ''+''"
    using itoa_nat_hd [of "nat i"] not_digit_sign by auto
  with False i show ?thesis
    by (simp add: itoa_def atoi_def Let_def parse_digits_itoa_nat)
qed

lemma itoa_inj:
  assumes "itoa i = itoa j"
  shows "i = j"
proof -
  have neg: "CHR ''-'' # s \<noteq> itoa_nat n" for s n
    using itoa_nat_hd [of n] not_digit_sign(1) by (metis list.sel(1))
  show ?thesis
    using assms neg neg [symmetric] by (auto simp: itoa_def itoa_nat_inj split: if_splits)
qed

lemma colon_notin_itoa: "CHR '':'' \<notin> set (itoa i)"
  using not_digit_sign(3) by (auto simp: itoa_def dest: itoa_nat_digits)

section \<open>Splitting, replacing, lower case\<close>

text \<open>\<open>strings.SplitN(s, sep, 2)\<close> for a one-byte separator.\<close>

definition split_n2 :: "char \<Rightarrow> string \<Rightarrow> string list" where
  "split_n2 c s =
     (if c \<in> set s then [takeWhile (\<lambda>x. x \<noteq> c) s, tl (dropWhile (\<lambda>x. x \<noteq> c) s)] else [s])"

lemma split_n2_append: "c \<notin> set xs \<Longrightarrow> split_n2 c (xs @ c # ys) = [xs, ys]"
proof -
  assume c: "c \<notin> set xs"
  then have "takeWhile (\<lambda>x. x \<noteq> c) (xs @ c # ys) = xs" by (induction xs) auto
  moreover from c have "dropWhile (\<lambda>x. x \<noteq> c) (xs @ c # ys) = c # ys" by (induction xs) auto
  ultimately show ?thesis by (simp add: split_n2_def)
qed

lemma split_n2_length: "length (split_n2 c s) < 2 \<longleftrightarrow> c \<notin> set s"
  by (simp add: split_n2_def)

text \<open>\<open>strings.ToLower\<close> on ASCII text.\<close>

definition to_lower_char :: "char \<Rightarrow> char" where
  "to_lower_char c =
     (if 65 \<le> (of_char c :: nat) \<and> (of_char c :: nat) \<le> 90 then char_of ((of_char c :: nat) + 32) else c)"

definition to_lower :: "string \<Rightarrow> string" where
  "to_lower s = map to_lower_char s"

lemma to_lower_char_idem: "to_lower_char (to_lower_char c) = to_lower_char c"
  by (auto simp: to_lower_char_def of_char_of)

lemma to_lower_idem [simp]: "to_lower (to_lower s) = to_lower s"
  by (simp add: to_lower_def to_lower_char_idem)

section \<open>Hexadecimal bytes and hardware addresses\<close>

definition hex_digit :: "nat \<Rightarrow> char" where
  "hex_digit d = (if d < 10 then char_of (48 + d) else char_of (87 + d))"

definition hex_byte :: "byte \<Rightarrow> string" where
  "hex_byte b = [hex_digit (unat b div 16), hex_digit (unat b mod 16)]"

text \<open>\<open>net.HardwareAddr.String\<close>: two hexadecimal digits per byte, joined by colons.\<close>

fun hwaddr_string :: "bytes \<Rightarrow> string" where
  "hwaddr_string [] = []"
| "hwaddr_string [b] = hex_byte b"
| "hwaddr_string (b # bs) = hex_byte b @ CHR '':'' # hwaddr_string bs"

lemma of_char_hex_digit:
  "d < 16 \<Longrightarrow> (of_char (hex_digit d) :: nat) = (if d < 10 then 48 + d else 87 + d)"
  by (simp add: hex_digit_def of_char_of)

lemma hex_digit_inj: "d < 16 \<Longrightarrow> e < 16 \<Longrightarrow> hex_digit d = hex_digit e \<Longrightarrow> d = e"
  by (drule arg_cong [where f = "of_char :: char \<Rightarrow> nat"])
    (auto simp: of_char_hex_digit split: if_splits)

lemma hex_byte_inj: "hex_byte a = hex_byte b \<Longrightarrow> a = b"
proof -
  assume h: "hex_byte a = hex_byte b"
  have d: "unat a div 16 = unat b div 16"
    by (rule hex_digit_inj) (use h unat_byte_less [of a] unat_byte_less [of b] in
        \<open>auto simp: hex_byte_def\<close>)
  have m: "unat a mod 16 = unat b mod 16"
    by (rule hex_digit_inj) (use h in \<open>auto simp: hex_byte_def\<close>)
  from d m have "unat a = unat b" by (metis div_mult_mod_eq)
  then show "a = b" by (simp add: word_unat_eq_iff)
qed

lemma length_hex_byte [simp]: "length (hex_byte b) = 2"
  by (simp add: hex_byte_def)

lemma hwaddr_string_inj:
  "length xs = length ys \<Longrightarrow> hwaddr_string xs @ s = hwaddr_string ys @ t \<Longrightarrow> xs = ys \<and> s = t"
proof (induction xs arbitrary: ys s t rule: hwaddr_string.induct)
  case 1
  then show ?case by simp
next
  case (2 b)
  then obtain c where "ys = [c]" by (cases ys) auto
  with 2 have "hex_byte b = hex_byte c" "s = t" by (simp_all add: hex_byte_def)
  with \<open>ys = [c]\<close> show ?case by (simp add: hex_byte_inj)
next
  case (3 b v vs)
  obtain c d ds where ys: "ys = c # d # ds"
    using "3.prems"(1) by (metis length_Suc_conv)
  have e: "hex_byte b = hex_byte c" "hwaddr_string (v # vs) @ s = hwaddr_string (d # ds) @ t"
    using "3.prems"(2) by (simp_all add: ys hex_byte_def)
  have "length (v # vs) = length (d # ds)" using "3.prems"(1) by (simp add: ys)
  from "3.IH" [OF this e(2)] hex_byte_inj [OF e(1)] show ?case by (simp add: ys)
qed

section \<open>Big-endian integers\<close>

definition be_uint16 :: "byte \<Rightarrow> byte \<Rightarrow> uint16" where
  "be_uint16 hi lo = word_of_int (uint hi * 256 + uint lo)"

definition put_be_uint32 :: "32 word \<Rightarrow> bytes" where
  "put_be_uint32 v =
     [ucast (drop_bit 24 v), ucast (drop_bit 16 v), ucast (drop_bit 8 v), ucast v]"

definition put_be_uint16 :: "uint16 \<Rightarrow> bytes" where
  "put_be_uint16 v = [ucast (drop_bit 8 v), ucast v]"

lemma uint_byte_bounds: "0 \<le> uint (b :: byte)" "uint (b :: byte) < 256"
  using uint_lt2p [of b] by simp_all

lemma uint_be_uint16: "uint (be_uint16 a b) = uint a * 256 + uint b"
  unfolding be_uint16_def uint_word_of_int
  using uint_byte_bounds [of a] uint_byte_bounds [of b]
  by (intro mod_pos_pos_trivial) simp_all

lemma be_uint16_put: "put_be_uint16 v = [a, b] \<Longrightarrow> be_uint16 a b = v"
proof -
  assume "put_be_uint16 v = [a, b]"
  then have a: "unat a = unat v div 256 mod 256" and b: "unat b = unat v mod 256"
    by (auto simp: put_be_uint16_def unsigned_ucast_eq unat_drop_bit_eq take_bit_eq_mod
        simp del: drop_bit_eq_div) (simp_all add: drop_bit_eq_div)
  have "unat v < 65536" using unsigned_less [of v, where 'a = nat] by simp
  then have "unat a * 256 + unat b = unat v" using a b by simp
  then have "int (unat a * 256 + unat b) = int (unat v)" by (rule arg_cong)
  then have "uint a * 256 + uint b = uint v" by simp
  then show ?thesis by (simp add: be_uint16_def)
qed

lemma be_uint16_inj: "be_uint16 a b = be_uint16 c d \<Longrightarrow> a = c \<and> b = d"
proof -
  assume h: "be_uint16 a b = be_uint16 c d"
  from arg_cong [OF h, of uint] have e: "uint a * 256 + uint b = uint c * 256 + uint d"
    by (simp only: uint_be_uint16)
  with uint_byte_bounds [of b] uint_byte_bounds [of d] have "uint a = uint c" by linarith
  with e show ?thesis by (simp add: word_uint_eq_iff)
qed

section \<open>IP addresses (\<open>net/netip\<close>)\<close>

text \<open>The zero \<open>netip.Addr\<close> is invalid; a valid one is an IPv4 or an IPv6 address.\<close>

datatype netip = InvalidAddr | V4Addr "32 word" | V6Addr "128 word"

fun addr_is_valid :: "netip \<Rightarrow> bool" where
  "addr_is_valid InvalidAddr = False"
| "addr_is_valid _ = True"

fun addr_is4 :: "netip \<Rightarrow> bool" where
  "addr_is4 (V4Addr _) = True"
| "addr_is4 _ = False"

fun addr_is6 :: "netip \<Rightarrow> bool" where
  "addr_is6 (V6Addr _) = True"
| "addr_is6 _ = False"

fun addr_is_unspecified :: "netip \<Rightarrow> bool" where
  "addr_is_unspecified InvalidAddr = False"
| "addr_is_unspecified (V4Addr a) = (a = 0)"
| "addr_is_unspecified (V6Addr a) = (a = 0)"

text \<open>
  \<open>Addr.IsGlobalUnicast\<close>: a valid address that is none of unspecified, the IPv4
  broadcast, loopback, multicast and link-local unicast.
\<close>

fun addr_is_global_unicast :: "netip \<Rightarrow> bool" where
  "addr_is_global_unicast InvalidAddr = False"
| "addr_is_global_unicast (V4Addr a) =
     (a \<noteq> 0 \<and> a \<noteq> 0xFFFFFFFF
      \<and> drop_bit 24 a \<noteq> 127
      \<and> drop_bit 28 a \<noteq> 0xE
      \<and> drop_bit 16 a \<noteq> 0xA9FE)"
| "addr_is_global_unicast (V6Addr a) =
     (a \<noteq> 0 \<and> a \<noteq> 1
      \<and> drop_bit 120 a \<noteq> 0xFF
      \<and> drop_bit 118 a \<noteq> 0x3FA)"

text \<open>\<open>Addr.AsSlice\<close>, as the callers need it: no bytes of an invalid address.\<close>

fun addr_slice :: "netip \<Rightarrow> netip option" where
  "addr_slice InvalidAddr = None"
| "addr_slice a = Some a"

end
