(* ===== verification/Dhcp_Types.thy ===== *)
theory Dhcp_Types
  imports Go_Std
begin

text \<open>
  The data of the libraries the program is built on (\<open>etherconn\<close>, \<open>dhcpv4\<close>,
  \<open>dhcpv6\<close>), as far as the program reads, writes or builds it. The structs whose fields
  the program accesses are records; an option the program builds with a library constructor is
  the constructor applied to the program's arguments. What the libraries compute is never
  defined here: it enters the model as the fields of \<open>v6api\<close> below, as arguments of the
  definitions that call it.
\<close>

section \<open>VLAN tags\<close>

record vlan =
  vlan_id :: uint16
  vlan_etype :: uint16

type_synonym vlans = "vlan list"

section \<open>DHCPv4 options the program builds\<close>

datatype v4subopt = AgentRemoteID bytes | AgentCircuitID bytes

datatype v4opt =
    OptClassIdentifier string
  | OptCustom4 "8 word" bytes
  | OptRelayAgentInfo "v4subopt list"
  | OptClientIdentifier bytes
  | OptGeneric4 "8 word" bytes

section \<open>DHCPv4 packets\<close>

text \<open>
  A \<open>dhcpv4.DHCPv4\<close> packet: the struct fields the program reads, and its options. The
  methods the program calls on it are fields of \<open>v4api\<close>.
\<close>

record dhcp4 =
  YourIPAddr :: netip
  ClientHWAddr :: bytes
  pkt_options :: "(byte \<times> bytes) list"

record v4api =
  ServerIdentifier :: "dhcp4 \<Rightarrow> netip"
  SubnetMask :: "dhcp4 \<Rightarrow> bytes"
  pkt_ToBytes :: "dhcp4 \<Rightarrow> bytes"
  pkt_FromBytes :: "bytes \<Rightarrow> dhcp4 option"

section \<open>DHCPv6 messages and options\<close>

datatype mtype =
    MTNone | MTSolicit | MTAdvertise | MTRequest | MTRenew | MTReply | MTRelease
  | MTRelayForward | MTRelayReply | MTOther "8 word"

datatype optcode =
    OptionClientID | OptionServerID | OptionIANA | OptionIAPD | OptionVendorClass
  | OptionDNSRecursiveNameServer | OptionDomainSearchList | OptionElapsedTime
  | OptionORO | OptionInterfaceID | OptionRemoteID | OptionOther uint16

datatype duid =
    DUIDEN nat bytes
  | DUIDLLT int bytes
  | DUIDOther bytes

datatype v6opt =
    OptClientID duid
  | OptServerID duid
  | OptRequestedOption "optcode list"
  | OptElapsedTime int
  | OptIANA bytes "netip list"
  | OptIAPD bytes "(netip \<times> nat) list"
  | OptVendorClass nat "bytes list"
  | OptRemoteID nat bytes
  | OptInterfaceID bytes
  | OptGeneric6 uint16 bytes
  | NilOption \<comment> \<open>a nil \<open>dhcpv6.Option\<close> interface value\<close>

record v6msg =
  msg_type :: mtype
  msg_opts :: "v6opt list"

text \<open>
  The calls into \<open>dhcpv6\<close> that compute something. \<open>new_message\<close> is
  \<open>NewMessage()\<close> (\<open>None\<close> is its error); \<open>add_option\<close> is
  \<open>Message.AddOption\<close>; \<open>with_option\<close>, \<open>with_iaid\<close> and \<open>with_iapd\<close>
  are the modifiers of those names applied to a message; \<open>get_one\<close> and \<open>get_all\<close>
  are \<open>Options.GetOne\<close> and \<open>Options.Get\<close>; \<open>one_iana\<close> and
  \<open>one_iapd\<close> are \<open>MessageOptions.OneIANA\<close> and \<open>OneIAPD\<close>, of which
  the program uses the addresses or prefixes inside (\<open>None\<close> is the nil pointer);
  \<open>options_add\<close> is \<open>Options.Add\<close>.
\<close>

record v6api =
  new_message :: "v6msg option"
  add_option :: "v6msg \<Rightarrow> v6opt \<Rightarrow> v6msg"
  with_option :: "v6opt \<Rightarrow> v6msg \<Rightarrow> v6msg"
  with_iaid :: "bytes \<Rightarrow> v6msg \<Rightarrow> v6msg"
  with_iapd :: "bytes \<Rightarrow> v6msg \<Rightarrow> v6msg"
  get_one :: "v6opt list \<Rightarrow> optcode \<Rightarrow> v6opt option"
  get_all :: "v6opt list \<Rightarrow> optcode \<Rightarrow> v6opt list"
  one_iana :: "v6opt list \<Rightarrow> v6opt option"
  one_iapd :: "v6opt list \<Rightarrow> v6opt option"
  options_add :: "v6opt list \<Rightarrow> v6opt \<Rightarrow> v6opt list"

text \<open>
  The documented behaviour the message builders rely on: a new message has no options,
  \<open>AddOption\<close> and \<open>Options.Add\<close> append one option.
\<close>

definition appends_options :: "v6api \<Rightarrow> bool" where
  "appends_options A \<longleftrightarrow>
     (\<forall>m. new_message A = Some m \<longrightarrow> msg_opts m = [])
     \<and> (\<forall>m x. add_option A m x = m\<lparr>msg_opts := msg_opts m @ [x]\<rparr>)
     \<and> (\<forall>xs x. options_add A xs x = xs @ [x])"

end
