(* ===== verification/Conf.thy ===== *)
theory Conf
  imports Dhcp_Types
begin

text \<open>
  The configuration (\<open>conf.go\<close>, the action type of \<open>sched.go\<close>, the constants and
  \<open>createPktRelay\<close> of \<open>dhcplt.go\<close>, the flapping part of \<open>setup.go\<close>): the
  \<open>testSetup\<close> struct, its defaults, its validation by \<open>init\<close>, and the text codecs
  of the values a configuration file or the command line gives as strings.
\<close>

section \<open>Interface: a text codec\<close>

text \<open>
  What a reader of configuration text promises its writer: printing a valid value gives a
  text from which the value is read back (\<open>reread\<close> is how the read value appears).
\<close>

locale text_codec =
  fixes to_text :: "'a \<Rightarrow> ('e, string) gores"
    and of_text :: "string \<Rightarrow> ('f, 'b) gores"
    and reread :: "'a \<Rightarrow> 'b"
    and valid :: "'a \<Rightarrow> bool"
  assumes printable: "valid x \<Longrightarrow> is_ok (to_text x)"
    and readable: "valid x \<Longrightarrow> to_text x = Ok t \<Longrightarrow> of_text t = Ok (reread x)"
    and reread_inj: "valid x \<Longrightarrow> valid y \<Longrightarrow> reread x = reread y \<Longrightarrow> x = y"
begin

lemma roundtrip: "valid x \<Longrightarrow> gbind (to_text x) (\<lambda>t. Ok (of_text t)) = Ok (Ok (reread x))"
  using printable readable by fastforce

lemma text_determines:
  assumes "valid x" "valid y" "to_text x = to_text y"
  shows "x = y"
proof -
  obtain t where t: "to_text x = Ok t" using printable [OF assms(1)] by blast
  then have "of_text t = Ok (reread x)" "of_text t = Ok (reread y)"
    using readable [OF assms(1)] readable [OF assms(2)] assms(3) by simp_all
  then show ?thesis using reread_inj assms(1,2) by simp
qed

end

section \<open>Actions\<close>

datatype actionType = actionDORA | actionRelease | actionRenew | actionRebind | actionOther int

datatype action_error = UnknownAction

text \<open>The source declares the actions with \<open>iota\<close>: they are ordered by number.\<close>

fun action_num :: "actionType \<Rightarrow> int" where
  "action_num actionDORA = 0"
| "action_num actionRelease = 1"
| "action_num actionRenew = 2"
| "action_num actionRebind = 3"
| "action_num (actionOther n) = n"

fun action_MarshalText :: "actionType \<Rightarrow> (action_error, string) gores" where
  "action_MarshalText actionDORA = Ok ''dora''"
| "action_MarshalText actionRelease = Ok ''release''"
| "action_MarshalText actionRenew = Ok ''renew''"
| "action_MarshalText actionRebind = Ok ''rebind''"
| "action_MarshalText (actionOther n) = Fail UnknownAction"

definition action_UnmarshalText :: "string \<Rightarrow> (action_error, actionType) gores" where
  "action_UnmarshalText text =
     (if text = ''dora'' then Ok actionDORA
      else if text = ''release'' then Ok actionRelease
      else if text = ''renew'' then Ok actionRenew
      else if text = ''rebind'' then Ok actionRebind
      else Fail UnknownAction)"

fun action_known :: "actionType \<Rightarrow> bool" where
  "action_known (actionOther n) = False"
| "action_known _ = True"

interpretation action_codec:
  text_codec action_MarshalText action_UnmarshalText "\<lambda>a. a" action_known
proof
  fix x y :: actionType and t
  show "action_known x \<Longrightarrow> is_ok (action_MarshalText x)" by (cases x) auto
  show "action_known x \<Longrightarrow> action_MarshalText x = Ok t \<Longrightarrow> action_UnmarshalText t = Ok x"
    by (cases x) (auto simp: action_UnmarshalText_def)
qed simp

section \<open>The setup\<close>

datatype relayType = ENG_AFPKT | ENG_XDP | ENG_Other string

text \<open>The relay object the driver's constructor returns, with the arguments it was given.\<close>

datatype pktrelay = RawSocketRelay string bool | XDPRelay string bool

record FlappingConf =
  FlapNum :: int
  MinInterval :: int
  MaxInterval :: int
  StayDownDur :: int

text \<open>\<open>dhcpv4.Option\<close> of a custom option: a nil code means none is configured.\<close>

record d4option =
  d4_code :: "byte option"
  d4_data :: bytes

record d6generic =
  d6_code :: uint16
  d6_data :: bytes

record testSetup =
  Ifname :: string
  NumOfClients :: uint
  StartMAC :: bytes
  MacStep :: uint
  StartVLANs :: vlans
  VLANEType :: uint
  VLANStep :: uint
  ExcludedVLANs :: "uint16 list"
  Interval :: int
  CustomV4Option :: d4option
  CustomV6Option :: d6generic
  v4Options :: "v4opt list"
  v6Options :: "v6opt list"
  Debug :: bool
  SaveLease :: bool
  ApplyLease :: bool
  Retry :: uint
  Timeout :: int
  GiAddr :: netip
  SourceV4Addr :: netip
  SourceV6Port :: uint16
  SourceV4Port :: uint16
  RID :: string
  CID :: string
  ClntID :: string
  VendorClass :: string
  EnableV4 :: bool
  EnableV6 :: bool
  SourceV6Addr :: netip
  StackDelay :: int
  V6MsgType :: mtype
  NeedNA :: bool
  NeedPD :: bool
  pktRelay :: "pktrelay option"
  Driver :: relayType
  Flapping :: "FlappingConf option"
  SendRSFirst :: bool
  Profiling :: bool
  LeaseFile :: string
  Action :: actionType
  saveV4Chan :: "nat option" \<comment> \<open>capacity of the channel, if made\<close>
  saveV6Chan :: "nat option"

definition BBFEnterpriseNumber :: nat where "BBFEnterpriseNumber = 3561"

definition EthernetTypeIPv4 :: uint16 where "EthernetTypeIPv4 = 0x0800"
definition EthernetTypeIPv6 :: uint16 where "EthernetTypeIPv6 = 0x86DD"

text \<open>\<open>dhcpv4.ClientPort\<close>, \<open>dhcpv4.ServerPort\<close>, \<open>dhcpv6.DefaultClientPort\<close>.\<close>

definition ClientPort4 :: int where "ClientPort4 = 68"
definition ServerPort4 :: int where "ServerPort4 = 67"
definition ClientPort6 :: int where "ClientPort6 = 546"

definition defaultMinFlapInt :: int where "defaultMinFlapInt = 5 * second"
definition defualtMaxFlapInt :: int where "defualtMaxFlapInt = 30 * second"

text \<open>The argument is \<open>etherconn.DefaultVLANEtype\<close>.\<close>

definition newDefaultConf :: "uint \<Rightarrow> testSetup" where
  "newDefaultConf default_etype =
     \<lparr>Ifname = [], NumOfClients = 1, StartMAC = [], MacStep = 1, StartVLANs = [],
      VLANEType = default_etype, VLANStep = 1, ExcludedVLANs = [], Interval = second,
      CustomV4Option = \<lparr>d4_code = None, d4_data = []\<rparr>,
      CustomV6Option = \<lparr>d6_code = 0, d6_data = []\<rparr>, v4Options = [], v6Options = [],
      Debug = False, SaveLease = False, ApplyLease = False, Retry = 1, Timeout = 5 * second,
      GiAddr = V4Addr 0, SourceV4Addr = V4Addr 0,
      SourceV6Port = word_of_int ClientPort6, SourceV4Port = word_of_int ClientPort4,
      RID = [], CID = [], ClntID = [], VendorClass = [], EnableV4 = True, EnableV6 = False,
      SourceV6Addr = V6Addr 0, StackDelay = 0, V6MsgType = MTNone,
      NeedNA = True, NeedPD = False, pktRelay = None, Driver = ENG_AFPKT,
      Flapping = Some \<lparr>FlapNum = 0, MinInterval = defaultMinFlapInt,
        MaxInterval = defualtMaxFlapInt, StayDownDur = 10 * second\<rparr>,
      SendRSFirst = False, Profiling = False, LeaseFile = ''dhcplt.lease'',
      Action = actionDORA, saveV4Chan = None, saveV6Chan = None\<rparr>"

fun excluded_loop :: "uint16 list \<Rightarrow> uint16 list \<Rightarrow> bool" where
  "excluded_loop excl [] = False"
| "excluded_loop excl (vid # vids) = (if vid \<in> set excl then True else excluded_loop excl vids)"

definition excluded :: "testSetup \<Rightarrow> uint16 list \<Rightarrow> bool" where
  "excluded setup vids = excluded_loop (ExcludedVLANs setup) vids"

lemma excluded_iff: "excluded setup vids \<longleftrightarrow> (\<exists>v \<in> set vids. v \<in> set (ExcludedVLANs setup))"
proof -
  have "excluded_loop excl vids \<longleftrightarrow> (\<exists>v \<in> set vids. v \<in> set excl)" for excl
    by (induction vids) auto
  then show ?thesis by (simp add: excluded_def)
qed

section \<open>Validation\<close>

datatype conf_error =
    EmptyIfname | ZeroClients | NoInterface string | BothDisabled | ZeroV4Port | ZeroV6Port
  | BadSourceV4 | BadGiAddr | BadSourceV6 | BadVlanNumber uint16 | AfpRelayFailed
  | XdpRelayFailed | UnknownEngine | FlapNumTooBig | FlapIntervalOrder

text \<open>
  The machine the program runs on: the interfaces it has (their hardware address) and whether
  the constructors of \<open>etherconn\<close>'s two packet relays succeed.
\<close>

record env =
  find_iface :: "string \<Rightarrow> bytes option"
  raw_relay_ok :: "string \<Rightarrow> bool \<Rightarrow> bool"
  xdp_relay_ok :: "string \<Rightarrow> bool \<Rightarrow> bool"

definition createPktRelay :: "env \<Rightarrow> testSetup \<Rightarrow> (conf_error, pktrelay) gores" where
  "createPktRelay E setup =
     (case Driver setup of
        ENG_AFPKT \<Rightarrow>
          if raw_relay_ok E (Ifname setup) (Debug setup)
          then Ok (RawSocketRelay (Ifname setup) (Debug setup)) else Fail AfpRelayFailed
      | ENG_XDP \<Rightarrow>
          if xdp_relay_ok E (Ifname setup) (Debug setup)
          then Ok (XDPRelay (Ifname setup) (Debug setup)) else Fail XdpRelayFailed
      | ENG_Other _ \<Rightarrow> Fail UnknownEngine)"

definition unicast4 :: "netip \<Rightarrow> bool" where
  "unicast4 a \<longleftrightarrow> addr_is4 a \<and> addr_is_global_unicast a"

definition unicast6 :: "netip \<Rightarrow> bool" where
  "unicast6 a \<longleftrightarrow> addr_is6 a \<and> addr_is_global_unicast a"

text \<open>The IPv4 part: the source address, then the relay address (an invalid one is replaced).\<close>

definition init_v4 :: "testSetup \<Rightarrow> (conf_error, testSetup) gores" where
  "init_v4 s =
     (if \<not> EnableV4 s then Ok s
      else if \<not> addr_is_unspecified (SourceV4Addr s) \<and> \<not> unicast4 (SourceV4Addr s)
        then Fail BadSourceV4
      else if addr_is_valid (GiAddr s)
        then if \<not> addr_is_unspecified (GiAddr s) \<and> \<not> unicast4 (GiAddr s)
             then Fail BadGiAddr else Ok s
      else Ok (s\<lparr>GiAddr := V4Addr 0\<rparr>))"

definition init_v6 :: "testSetup \<Rightarrow> (conf_error, testSetup) gores" where
  "init_v6 s =
     (if EnableV6 s \<and> \<not> addr_is_unspecified (SourceV6Addr s) \<and> \<not> unicast6 (SourceV6Addr s)
      then Fail BadSourceV6 else Ok s)"

text \<open>
  The list of excluded VLAN identifiers is emptied first and the loop then runs over the
  emptied list, as the source has it.
\<close>

fun init_excluded_loop :: "uint16 list \<Rightarrow> testSetup \<Rightarrow> (conf_error, testSetup) gores" where
  "init_excluded_loop [] s = Ok s"
| "init_excluded_loop (n # ns) s =
     (if n > 4096 then Fail (BadVlanNumber n)
      else init_excluded_loop ns (s\<lparr>ExcludedVLANs := ExcludedVLANs s @ [n]\<rparr>))"

definition init_excluded :: "testSetup \<Rightarrow> (conf_error, testSetup) gores" where
  "init_excluded s =
     (let s = s\<lparr>ExcludedVLANs := []\<rparr> in init_excluded_loop (ExcludedVLANs s) s)"

definition init_options :: "v6api \<Rightarrow> testSetup \<Rightarrow> testSetup" where
  "init_options A s =
     (let s = (if VendorClass s \<noteq> []
               then s\<lparr>v4Options := v4Options s @ [OptClassIdentifier (VendorClass s)],
                      v6Options := options_add A (v6Options s)
                        (OptVendorClass BBFEnterpriseNumber [bytes_of_string (VendorClass s)])\<rparr>
               else s);
          s = (case d4_code (CustomV4Option s) of
                 None \<Rightarrow> s
               | Some c \<Rightarrow>
                   s\<lparr>v4Options := v4Options s @ [OptCustom4 c (d4_data (CustomV4Option s))]\<rparr>)
      in if d6_code (CustomV6Option s) \<noteq> 0
         then s\<lparr>v6Options := v6Options s @
                 [OptGeneric6 (d6_code (CustomV6Option s)) (d6_data (CustomV6Option s))]\<rparr>
         else s)"

definition init_msgtype :: "testSetup \<Rightarrow> testSetup" where
  "init_msgtype s =
     (if V6MsgType s = MTNone
      then s\<lparr>V6MsgType := (if RID s \<noteq> [] \<or> CID s \<noteq> [] then MTRelayForward else MTSolicit)\<rparr>
      else s)"

definition init_flapping :: "testSetup \<Rightarrow> (conf_error, testSetup) gores" where
  "init_flapping s =
     (case Flapping s of
        None \<Rightarrow> Panic
      | Some f \<Rightarrow>
          if FlapNum f > sint (NumOfClients s) then Fail FlapNumTooBig
          else if MinInterval f > MaxInterval f then Fail FlapIntervalOrder
          else Ok s)"

definition saveChanDepth :: nat where "saveChanDepth = 8"

definition init_savechans :: "testSetup \<Rightarrow> testSetup" where
  "init_savechans s =
     (if SaveLease s \<or> Action s = actionRelease
      then s\<lparr>saveV4Chan := (if EnableV4 s then Some saveChanDepth else saveV4Chan s),
             saveV6Chan := (if EnableV6 s then Some saveChanDepth else saveV6Chan s)\<rparr>
      else s)"

definition init :: "v6api \<Rightarrow> env \<Rightarrow> testSetup \<Rightarrow> (conf_error, testSetup) gores" where
  "init A E s =
     (if Ifname s = [] then Fail EmptyIfname
      else if NumOfClients s = 0 then Fail ZeroClients
      else case find_iface E (Ifname s) of
        None \<Rightarrow> Fail (NoInterface (Ifname s))
      | Some hw \<Rightarrow>
          let s = (if StartMAC s = [] then s\<lparr>StartMAC := hw\<rparr> else s) in
          if \<not> EnableV4 s \<and> \<not> EnableV6 s then Fail BothDisabled
          else if SourceV4Port s = 0 then Fail ZeroV4Port
          else if SourceV6Port s = 0 then Fail ZeroV6Port
          else gbind (init_v4 s) (\<lambda>s. gbind (init_v6 s) (\<lambda>s.
            if NumOfClients s = 0 then Fail ZeroClients
            else
              let s = s\<lparr>StartVLANs :=
                    map (\<lambda>v. v\<lparr>vlan_etype := ucast (VLANEType s)\<rparr>) (StartVLANs s)\<rparr> in
              gbind (init_excluded s) (\<lambda>s.
                let s = init_msgtype (init_options A s) in
                gbind (createPktRelay E s) (\<lambda>r.
                  gbind (init_flapping (s\<lparr>pktRelay := Some r\<rparr>)) (\<lambda>s. Ok (init_savechans s)))))))"


text \<open>What each stage leaves alone.\<close>

lemma init_v4_frame: "init_v4 s = Ok s' \<Longrightarrow> \<exists>g. s' = s\<lparr>GiAddr := g\<rparr>"
  by (auto simp: init_v4_def split: if_splits intro: exI [of _ "GiAddr s"])

lemma init_v6_frame: "init_v6 s = Ok s' \<Longrightarrow> s' = s"
  by (auto simp: init_v6_def split: if_splits)

lemma init_excluded_empties [simp]: "init_excluded s = Ok (s\<lparr>ExcludedVLANs := []\<rparr>)"
  by (simp add: init_excluded_def)

definition conf_v4opts :: "testSetup \<Rightarrow> v4opt list" where
  "conf_v4opts s =
     v4Options s
     @ (if VendorClass s \<noteq> [] then [OptClassIdentifier (VendorClass s)] else [])
     @ (case d4_code (CustomV4Option s) of
          None \<Rightarrow> [] | Some c \<Rightarrow> [OptCustom4 c (d4_data (CustomV4Option s))])"

definition conf_v6opts :: "v6api \<Rightarrow> testSetup \<Rightarrow> v6opt list" where
  "conf_v6opts A s =
     (if VendorClass s \<noteq> []
      then options_add A (v6Options s)
             (OptVendorClass BBFEnterpriseNumber [bytes_of_string (VendorClass s)])
      else v6Options s)
     @ (if d6_code (CustomV6Option s) \<noteq> 0
        then [OptGeneric6 (d6_code (CustomV6Option s)) (d6_data (CustomV6Option s))] else [])"

lemma init_options_eq:
  "init_options A s = s\<lparr>v4Options := conf_v4opts s, v6Options := conf_v6opts A s\<rparr>"
  by (simp add: init_options_def Let_def conf_v4opts_def conf_v6opts_def split: option.splits)

lemma init_flapping_frame: "init_flapping s = Ok s' \<Longrightarrow> s' = s"
  by (auto simp: init_flapping_def split: option.splits if_splits)

section \<open>What a validated setup guarantees\<close>

text \<open>The user's configuration is acceptable on the machine \<open>E\<close>.\<close>

definition conf_acceptable :: "env \<Rightarrow> testSetup \<Rightarrow> bool" where
  "conf_acceptable E s \<longleftrightarrow>
     Ifname s \<noteq> [] \<and> NumOfClients s \<noteq> 0
     \<and> find_iface E (Ifname s) \<noteq> None
     \<and> (EnableV4 s \<or> EnableV6 s)
     \<and> SourceV4Port s \<noteq> 0 \<and> SourceV6Port s \<noteq> 0
     \<and> (EnableV4 s \<longrightarrow>
          (addr_is_unspecified (SourceV4Addr s) \<or> unicast4 (SourceV4Addr s))
          \<and> (addr_is_valid (GiAddr s) \<longrightarrow> addr_is_unspecified (GiAddr s) \<or> unicast4 (GiAddr s)))
     \<and> (EnableV6 s \<longrightarrow> addr_is_unspecified (SourceV6Addr s) \<or> unicast6 (SourceV6Addr s))
     \<and> is_ok (createPktRelay E s)
     \<and> (\<exists>f. Flapping s = Some f \<and> FlapNum f \<le> sint (NumOfClients s)
              \<and> MinInterval f \<le> MaxInterval f)"

text \<open>The setup the rest of the program runs on.\<close>

definition setup_ok :: "testSetup \<Rightarrow> bool" where
  "setup_ok s \<longleftrightarrow>
     Ifname s \<noteq> [] \<and> NumOfClients s \<noteq> 0 \<and> (EnableV4 s \<or> EnableV6 s)
     \<and> SourceV4Port s \<noteq> 0 \<and> SourceV6Port s \<noteq> 0
     \<and> V6MsgType s \<noteq> MTNone \<and> pktRelay s \<noteq> None
     \<and> (EnableV4 s \<longrightarrow> addr_is_unspecified (GiAddr s) \<or> unicast4 (GiAddr s))
     \<and> (\<forall>v \<in> set (StartVLANs s). vlan_etype v = ucast (VLANEType s))
     \<and> (case Flapping s of None \<Rightarrow> False
        | Some f \<Rightarrow> FlapNum f \<le> sint (NumOfClients s) \<and> MinInterval f \<le> MaxInterval f)
     \<and> (SaveLease s \<longrightarrow> (EnableV4 s \<longrightarrow> saveV4Chan s = Some saveChanDepth)
          \<and> (EnableV6 s \<longrightarrow> saveV6Chan s = Some saveChanDepth))"

text \<open>Fields a later stage reads are not touched by an earlier one.\<close>

lemma createPktRelay_frame [simp]:
  "createPktRelay E (s\<lparr>StartMAC := a\<rparr>) = createPktRelay E s"
  "createPktRelay E (s\<lparr>GiAddr := b\<rparr>) = createPktRelay E s"
  "createPktRelay E (s\<lparr>StartVLANs := c\<rparr>) = createPktRelay E s"
  "createPktRelay E (s\<lparr>ExcludedVLANs := d\<rparr>) = createPktRelay E s"
  "createPktRelay E (s\<lparr>v4Options := e\<rparr>) = createPktRelay E s"
  "createPktRelay E (s\<lparr>v6Options := f\<rparr>) = createPktRelay E s"
  "createPktRelay E (s\<lparr>V6MsgType := g\<rparr>) = createPktRelay E s"
  by (simp_all add: createPktRelay_def cong: relayType.case_cong)

lemma conf_opts_frame [simp]:
  "conf_v4opts (s\<lparr>StartMAC := a\<rparr>) = conf_v4opts s" "conf_v6opts A (s\<lparr>StartMAC := a\<rparr>) = conf_v6opts A s"
  "conf_v4opts (s\<lparr>GiAddr := b\<rparr>) = conf_v4opts s" "conf_v6opts A (s\<lparr>GiAddr := b\<rparr>) = conf_v6opts A s"
  "conf_v4opts (s\<lparr>StartVLANs := c\<rparr>) = conf_v4opts s" "conf_v6opts A (s\<lparr>StartVLANs := c\<rparr>) = conf_v6opts A s"
  "conf_v4opts (s\<lparr>ExcludedVLANs := d\<rparr>) = conf_v4opts s" "conf_v6opts A (s\<lparr>ExcludedVLANs := d\<rparr>) = conf_v6opts A s"
  by (simp_all add: conf_v4opts_def conf_v6opts_def cong: option.case_cong)

definition conf_mtype :: "testSetup \<Rightarrow> mtype" where
  "conf_mtype s =
     (if V6MsgType s = MTNone then if RID s \<noteq> [] \<or> CID s \<noteq> [] then MTRelayForward else MTSolicit
      else V6MsgType s)"

lemma conf_mtype_some: "conf_mtype s \<noteq> MTNone"
  by (simp add: conf_mtype_def)

lemma init_msgtype_eq: "init_msgtype s = s\<lparr>V6MsgType := conf_mtype s\<rparr>"
  by (simp add: init_msgtype_def conf_mtype_def)

definition conf_giaddr :: "testSetup \<Rightarrow> netip" where
  "conf_giaddr s = (if EnableV4 s \<and> \<not> addr_is_valid (GiAddr s) then V4Addr 0 else GiAddr s)"

lemma init_v4_Ok_iff:
  "init_v4 s = Ok s' \<longleftrightarrow>
     s' = s\<lparr>GiAddr := conf_giaddr s\<rparr>
     \<and> (EnableV4 s \<longrightarrow> (addr_is_unspecified (SourceV4Addr s) \<or> unicast4 (SourceV4Addr s))
         \<and> (addr_is_valid (GiAddr s) \<longrightarrow> addr_is_unspecified (GiAddr s) \<or> unicast4 (GiAddr s)))"
  by (auto simp: init_v4_def conf_giaddr_def)

lemma init_v6_Ok_iff:
  "init_v6 s = Ok s' \<longleftrightarrow>
     s' = s \<and> (EnableV6 s \<longrightarrow> addr_is_unspecified (SourceV6Addr s) \<or> unicast6 (SourceV6Addr s))"
  by (auto simp: init_v6_def)

lemma init_flapping_Ok_iff:
  "init_flapping s = Ok s' \<longleftrightarrow>
     s' = s \<and> (\<exists>f. Flapping s = Some f \<and> FlapNum f \<le> sint (NumOfClients s)
                 \<and> MinInterval f \<le> MaxInterval f)"
  by (auto simp: init_flapping_def split: option.splits)

lemmas init_Ok_iffs = init_v4_Ok_iff init_v6_Ok_iff init_flapping_Ok_iff gbind_eq_Ok

text \<open>The setup a successful validation returns, field by field.\<close>

definition conf_result :: "v6api \<Rightarrow> testSetup \<Rightarrow> bytes \<Rightarrow> pktrelay \<Rightarrow> testSetup" where
  "conf_result A s hw r =
     init_savechans (s\<lparr>StartMAC := (if StartMAC s = [] then hw else StartMAC s),
        GiAddr := conf_giaddr s,
        StartVLANs := map (\<lambda>v. v\<lparr>vlan_etype := ucast (VLANEType s)\<rparr>) (StartVLANs s),
        ExcludedVLANs := [], v4Options := conf_v4opts s, v6Options := conf_v6opts A s,
        V6MsgType := conf_mtype s, pktRelay := Some r\<rparr>)"

lemma conf_mtype_frame [simp]:
  "conf_mtype (s\<lparr>StartMAC := a\<rparr>) = conf_mtype s" "conf_mtype (s\<lparr>GiAddr := b\<rparr>) = conf_mtype s"
  "conf_mtype (s\<lparr>StartVLANs := c\<rparr>) = conf_mtype s" "conf_mtype (s\<lparr>ExcludedVLANs := d\<rparr>) = conf_mtype s"
  "conf_mtype (s\<lparr>v4Options := e\<rparr>) = conf_mtype s" "conf_mtype (s\<lparr>v6Options := f\<rparr>) = conf_mtype s"
  "conf_giaddr (s\<lparr>StartMAC := a\<rparr>) = conf_giaddr s"
  by (simp_all add: conf_mtype_def conf_giaddr_def)

lemma init_Ok_iff:
  "init A E s = Ok s' \<longleftrightarrow>
     conf_acceptable E s
     \<and> (\<exists>hw r. find_iface E (Ifname s) = Some hw \<and> createPktRelay E s = Ok r
              \<and> s' = conf_result A s hw r)"
proof (cases "Ifname s = [] \<or> NumOfClients s = 0 \<or> (\<not> EnableV4 s \<and> \<not> EnableV6 s)
    \<or> SourceV4Port s = 0 \<or> SourceV6Port s = 0 \<or> find_iface E (Ifname s) = None")
  case True
  then show ?thesis
    by (auto simp: init_def conf_acceptable_def Let_def split: option.splits)
next
  case False
  then obtain hw where hw: "find_iface E (Ifname s) = Some hw" by auto
  show ?thesis
  proof (cases "StartMAC s = []")
    case True
    from False hw show ?thesis
     by (auto simp add: True init_def Let_def init_Ok_iffs conf_acceptable_def init_options_eq init_msgtype_eq
        conf_result_def simp del: not_None_eq)
  next
    case F2: False
    from False hw show ?thesis
     by (auto simp add: F2 init_def Let_def init_Ok_iffs conf_acceptable_def init_options_eq init_msgtype_eq
        conf_result_def simp del: not_None_eq)
  qed
qed

lemma conf_result_sel [simp]:
  "Ifname (conf_result A s hw r) = Ifname s"
  "NumOfClients (conf_result A s hw r) = NumOfClients s"
  "StartMAC (conf_result A s hw r) = (if StartMAC s = [] then hw else StartMAC s)"
  "MacStep (conf_result A s hw r) = MacStep s" "Debug (conf_result A s hw r) = Debug s"
  "VLANEType (conf_result A s hw r) = VLANEType s"
  "VLANStep (conf_result A s hw r) = VLANStep s"
  "ExcludedVLANs (conf_result A s hw r) = []"
  "EnableV4 (conf_result A s hw r) = EnableV4 s"
  "EnableV6 (conf_result A s hw r) = EnableV6 s"
  "SourceV4Port (conf_result A s hw r) = SourceV4Port s"
  "SourceV6Port (conf_result A s hw r) = SourceV6Port s"
  "GiAddr (conf_result A s hw r) = conf_giaddr s"
  "V6MsgType (conf_result A s hw r) = conf_mtype s"
  "pktRelay (conf_result A s hw r) = Some r"
  "Flapping (conf_result A s hw r) = Flapping s"
  "SaveLease (conf_result A s hw r) = SaveLease s"
  "Action (conf_result A s hw r) = Action s" "LeaseFile (conf_result A s hw r) = LeaseFile s"
  "v4Options (conf_result A s hw r) = conf_v4opts s"
  "v6Options (conf_result A s hw r) = conf_v6opts A s"
  "StartVLANs (conf_result A s hw r) =
     map (\<lambda>v. v\<lparr>vlan_etype := ucast (VLANEType s)\<rparr>) (StartVLANs s)"
  by (simp_all add: conf_result_def init_savechans_def)

lemma conf_result_chans:
  "SaveLease s \<Longrightarrow> EnableV4 s \<Longrightarrow> saveV4Chan (conf_result A s hw r) = Some saveChanDepth"
  "SaveLease s \<Longrightarrow> EnableV6 s \<Longrightarrow> saveV6Chan (conf_result A s hw r) = Some saveChanDepth"
  by (simp_all add: conf_result_def init_savechans_def)

lemma conf_result_setup_ok:
  assumes "conf_acceptable E s"
  shows "setup_ok (conf_result A s hw r)"
  using assms
  by (auto simp: conf_acceptable_def setup_ok_def conf_mtype_some conf_result_chans conf_giaddr_def
      split: option.splits)

text \<open>
  A configuration on a machine with one interface, for the applications of the properties below;
  \<open>example_v6\<close> stands for the DHCPv6 library, which this configuration hardly uses.
\<close>

definition example_env :: env where
  "example_env =
     \<lparr>find_iface = (\<lambda>n. if n = ''eth1'' then Some [2, 0, 0, 0, 0, 7] else None),
      raw_relay_ok = (\<lambda>_ _. True), xdp_relay_ok = (\<lambda>_ _. False)\<rparr>"

definition example_conf :: testSetup where
  "example_conf = (newDefaultConf 0x8100)
     \<lparr>Ifname := ''eth1'', NumOfClients := 3, SaveLease := True, EnableV6 := True,
      StartVLANs := [\<lparr>vlan_id = 100, vlan_etype = 0\<rparr>], ExcludedVLANs := [100, 102]\<rparr>"

definition example_v6 :: v6api where
  "example_v6 =
     \<lparr>new_message = Some \<lparr>msg_type = MTNone, msg_opts = []\<rparr>,
      add_option = (\<lambda>m x. m\<lparr>msg_opts := msg_opts m @ [x]\<rparr>),
      with_option = (\<lambda>x m. m), with_iaid = (\<lambda>i m. m), with_iapd = (\<lambda>i m. m),
      get_one = (\<lambda>os c. None), get_all = (\<lambda>os c. []),
      one_iana = (\<lambda>os. None), one_iapd = (\<lambda>os. None), options_add = (\<lambda>xs x. xs @ [x])\<rparr>"

lemma example_init:
  "init example_v6 example_env example_conf = Ok (the_ok (init example_v6 example_env example_conf))"
proof -
  have "is_Ok (init example_v6 example_env example_conf)" by code_simp
  then show ?thesis by simp
qed

text \<open>
  C30: validation succeeds exactly on the acceptable configurations: a named interface that
  exists, at least one client, a protocol enabled, non-zero ports, unicast (or unspecified)
  addresses for the enabled protocols, a packet relay that can be created and a consistent
  flapping section.
\<close>

theorem init_succeeds_iff: "is_ok (init A E s) \<longleftrightarrow> conf_acceptable E s"
proof -
  have "\<exists>hw r. find_iface E (Ifname s) = Some hw \<and> createPktRelay E s = Ok r"
    if "conf_acceptable E s"
    using that by (auto simp: conf_acceptable_def)
  then show ?thesis by (auto simp: init_Ok_iff)
qed

text \<open>
  C29: what \<open>init\<close> returns satisfies the invariant the rest of the program relies on: a
  concrete DHCPv6 message type has replaced \<open>auto\<close>, the packet relay exists, every VLAN tag
  carries the configured EtherType, the flapping bounds are ordered and the lease channels exist
  when leases are saved.
\<close>

theorem init_establishes_setup_ok:
  assumes "init A E s = Ok s'"
  shows "setup_ok s'"
  using assms by (auto simp: init_Ok_iff intro: conf_result_setup_ok)

theorem init_establishes_setup_ok_witness:
  "setup_ok (the_ok (init example_v6 example_env example_conf))"
  using init_establishes_setup_ok [OF example_init] .

text \<open>
  the exclusion list of the configuration never survives validation: whatever VLAN
  identifiers were excluded, no list of identifiers is excluded afterwards.
\<close>

theorem init_drops_exclusions:
  assumes "init A E s = Ok s'"
  shows "excluded s' vids = False"
  using assms by (auto simp: init_Ok_iff excluded_iff)

theorem init_drops_exclusions_witness:
  "excluded example_conf [100]
   \<and> \<not> excluded (the_ok (init example_v6 example_env example_conf)) [100]"
proof -
  have "excluded example_conf [100]" by code_simp
  then show ?thesis using init_drops_exclusions [OF example_init, of "[100]"] by simp
qed

section \<open>Options and message types as text\<close>

datatype opt_error = InvalidOption | NotANumber string | UnsupportedMsgType string

definition parseD4CustomOptionStr :: "string \<Rightarrow> (opt_error, d4option) gores" where
  "parseD4CustomOptionStr coptStr =
     (let strList = split_n2 (CHR '':'') coptStr
      in if length strList < 2 then Fail InvalidOption
         else case atoi (strList ! 0) of
             None \<Rightarrow> Fail (NotANumber (strList ! 0))
           | Some oid \<Rightarrow> Ok \<lparr>d4_code = Some (word_of_int oid),
                            d4_data = bytes_of_string (strList ! 1)\<rparr>)"

text \<open>
  The DHCPv6 codec returns a value of Go's type \<open>any\<close>: an \<open>OptionGeneric\<close> for the
  empty text, a pointer to one otherwise; \<open>d6OptionToStr\<close> asserts the former.
\<close>

datatype d6any = GenericVal d6generic | GenericPtr d6generic

definition parseD6CustomOptionStr :: "string \<Rightarrow> (opt_error, d6any) gores" where
  "parseD6CustomOptionStr coptStr =
     (let strList = split_n2 (CHR '':'') coptStr
      in if length strList < 2 then Fail InvalidOption
         else case atoi (strList ! 0) of
             None \<Rightarrow> Fail (NotANumber (strList ! 0))
           | Some oid \<Rightarrow> Ok (GenericPtr \<lparr>d6_code = word_of_int oid,
                            d6_data = bytes_of_string (strList ! 1)\<rparr>))"

definition d4OptionFromStr :: "string \<Rightarrow> (opt_error, d4option) gores" where
  "d4OptionFromStr text =
     (if text = [] then Ok \<lparr>d4_code = None, d4_data = []\<rparr> else parseD4CustomOptionStr text)"

text \<open>\<open>value_string\<close> is \<open>dhcpv4.OptionValue.String\<close> of the option's value.\<close>

definition d4OptionToStr :: "(bytes \<Rightarrow> string) \<Rightarrow> d4option \<Rightarrow> (opt_error, string) gores" where
  "d4OptionToStr value_string v =
     (case d4_code v of
        None \<Rightarrow> Ok []
      | Some c \<Rightarrow> Ok (itoa (uint c) @ CHR '':'' # value_string (d4_data v)))"

definition d6OptionFromStr :: "string \<Rightarrow> (opt_error, d6any) gores" where
  "d6OptionFromStr text =
     (if text = [] then Ok (GenericVal \<lparr>d6_code = 0, d6_data = []\<rparr>)
      else parseD6CustomOptionStr text)"

definition d6OptionToStr :: "d6any \<Rightarrow> (opt_error, string) gores" where
  "d6OptionToStr in_any =
     (case in_any of
        GenericPtr _ \<Rightarrow> Panic
      | GenericVal v \<Rightarrow>
          if d6_code v = 0 then Ok []
          else Ok (itoa (uint (d6_code v)) @ CHR '':'' # string_of_bytes (d6_data v)))"

definition d6MsgTypeFromStr :: "string \<Rightarrow> (opt_error, mtype) gores" where
  "d6MsgTypeFromStr text =
     (let t = to_lower text
      in if t = ''solicit'' then Ok MTSolicit
         else if t = ''relay'' then Ok MTRelayForward
         else if t = ''auto'' then Ok MTNone
         else Fail (UnsupportedMsgType text))"

text \<open>\<open>mtype_string\<close> is \<open>dhcpv6.MessageType.String\<close>.\<close>

definition d6MsgTypeToStr :: "(mtype \<Rightarrow> string) \<Rightarrow> mtype \<Rightarrow> (opt_error, string) gores" where
  "d6MsgTypeToStr mtype_string v =
     (if v = MTNone then Ok ''auto'' else Ok (to_lower (mtype_string v)))"

lemma word_small_in_int64:
  "in_int64 (uint (w :: 16 word))" "in_int64 (uint (v :: 8 word))"
  using uint_lt2p [of w] uint_lt2p [of v]
  by (auto simp: in_int64_def min_int64_def max_int64_def intro: order_trans [OF _ uint_ge_0])

lemma option_text_split:
  "split_n2 (CHR '':'') (itoa n @ CHR '':'' # d) = [itoa n, d]"
  by (rule split_n2_append) (rule colon_notin_itoa)

lemma parseD6_text:
  "in_int64 n \<Longrightarrow> parseD6CustomOptionStr (itoa n @ CHR '':'' # d)
     = Ok (GenericPtr \<lparr>d6_code = word_of_int n, d6_data = bytes_of_string d\<rparr>)"
  by (simp add: parseD6CustomOptionStr_def option_text_split atoi_itoa)

lemma parseD4_text:
  "in_int64 n \<Longrightarrow> parseD4CustomOptionStr (itoa n @ CHR '':'' # d)
     = Ok \<lparr>d4_code = Some (word_of_int n), d4_data = bytes_of_string d\<rparr>"
  by (simp add: parseD4CustomOptionStr_def option_text_split atoi_itoa)

interpretation d6_codec:
  text_codec "\<lambda>g. d6OptionToStr (GenericVal g)" d6OptionFromStr GenericPtr "\<lambda>g. d6_code g \<noteq> 0"
proof
  fix x y :: d6generic and t
  assume x: "d6_code x \<noteq> 0"
  then show "is_ok (d6OptionToStr (GenericVal x))" by (simp add: d6OptionToStr_def)
  show "d6OptionFromStr t = Ok (GenericPtr x)" if "d6OptionToStr (GenericVal x) = Ok t"
    using that x
    by (auto simp: d6OptionToStr_def d6OptionFromStr_def parseD6_text word_small_in_int64)
qed simp

lemma parseD6_ptr: "parseD6CustomOptionStr t = Ok v \<Longrightarrow> \<exists>g. v = GenericPtr g"
  by (auto simp: parseD6CustomOptionStr_def Let_def split: if_splits option.splits)

text \<open>
  an action is read from a text exactly when it is one of the four actions and the text is
  the one it is printed as; every other text is an error.
\<close>

theorem action_text_exact:
  "action_UnmarshalText t = Ok a \<longleftrightarrow> action_known a \<and> action_MarshalText a = Ok t"
  by (cases a) (auto simp: action_UnmarshalText_def)

text \<open>
  C40: a custom DHCPv6 option with a non-zero code is read back, code and data, from the text it
  is printed as, whatever bytes (colons included) its data holds.
\<close>

theorem d6_option_roundtrip:
  assumes "d6_code g \<noteq> 0"
  shows "gbind (d6OptionToStr (GenericVal g)) (\<lambda>t. Ok (d6OptionFromStr t)) = Ok (Ok (GenericPtr g))"
  using assms by (rule d6_codec.roundtrip)

theorem d6_option_roundtrip_witness:
  "gbind (d6OptionToStr (GenericVal \<lparr>d6_code = 60, d6_data = [58, 1]\<rparr>))
      (\<lambda>t. Ok (d6OptionFromStr t)) = Ok (Ok (GenericPtr \<lparr>d6_code = 60, d6_data = [58, 1]\<rparr>))"
  using d6_option_roundtrip [of "\<lparr>d6_code = 60, d6_data = [58, 1]\<rparr>"] by simp

text \<open>
  a custom DHCPv6 option read from a non-empty text is a pointer, and printing it again
  fails \<open>d6OptionToStr\<close>'s type assertion: the reader and the printer disagree on the type.
\<close>

theorem d6_option_reprint_panics:
  assumes "d6OptionFromStr t = Ok v" and "t \<noteq> []"
  shows "d6OptionToStr v = Panic"
  using assms by (auto simp: d6OptionFromStr_def d6OptionToStr_def dest: parseD6_ptr)

theorem d6_option_reprint_panics_witness:
  "d6OptionToStr (the_ok (d6OptionFromStr ''7:x'')) = Panic"
proof -
  have a: "itoa 7 = ''7''" by code_simp
  have p: "d6OptionFromStr ''7:x''
      = Ok (GenericPtr \<lparr>d6_code = 7, d6_data = bytes_of_string ''x''\<rparr>)"
    using parseD6_text [of 7 "''x''"]
    by (simp add: d6OptionFromStr_def a in_int64_def min_int64_def max_int64_def)
  show ?thesis using d6_option_reprint_panics [OF p] by (simp add: p)
qed

text \<open>
  the option number of a custom option text is any 64-bit integer; it is reduced modulo
  256 for DHCPv4 and modulo 65536 for DHCPv6, without an error, and the rest of the text after
  the first colon is the data.
\<close>

theorem option_number_wraps:
  assumes "in_int64 n"
  shows "parseD4CustomOptionStr (itoa n @ CHR '':'' # d)
           = Ok \<lparr>d4_code = Some (word_of_int (n mod 256)), d4_data = bytes_of_string d\<rparr>
       \<and> parseD6CustomOptionStr (itoa n @ CHR '':'' # d)
           = Ok (GenericPtr \<lparr>d6_code = word_of_int (n mod 65536), d6_data = bytes_of_string d\<rparr>)"
proof -
  have "(word_of_int (n mod 256) :: 8 word) = word_of_int n"
    "(word_of_int (n mod 65536) :: 16 word) = word_of_int n"
    by (simp_all add: word_of_int_eq_iff take_bit_eq_mod)
  then show ?thesis using assms by (simp add: parseD4_text parseD6_text)
qed

theorem option_number_wraps_witness:
  "parseD4CustomOptionStr (itoa 300 @ CHR '':'' # ''ab'')
     = Ok \<lparr>d4_code = Some 44, d4_data = bytes_of_string ''ab''\<rparr>"
  using option_number_wraps [of 300 "''ab''"]
  by (simp add: in_int64_def min_int64_def max_int64_def)

text \<open>
  a DHCPv6 message type survives being printed and read again only if it is \<open>auto\<close>, or
  the library's name for it is, in lower case, the word the reader expects.
\<close>

theorem msgtype_roundtrip_iff:
  "gbind (d6MsgTypeToStr name m) d6MsgTypeFromStr = Ok m \<longleftrightarrow>
     m = MTNone
     \<or> (m = MTSolicit \<and> to_lower (name m) = ''solicit'')
     \<or> (m = MTRelayForward \<and> to_lower (name m) = ''relay'')"
  by (auto simp: d6MsgTypeToStr_def d6MsgTypeFromStr_def Let_def to_lower_idem)
    (simp_all add: to_lower_def to_lower_char_def)

end
