(* ===== verification/ClientGen.thy ===== *)
theory ClientGen
  imports Conf
begin

text \<open>
  Generation of the client configurations (\<open>setup.go\<close>): one \<open>clientConfig\<close> per
  simulated client, with its MAC address, VLAN tags and option values derived from the setup and
  the client's index.
\<close>

section \<open>The address libraries\<close>

text \<open>
  \<open>myaddr.IncMACAddr\<close>, \<open>myaddr.IncreaseVLANIDs\<close> and the methods \<open>IDs\<close>,
  \<open>SetIDs\<close>, \<open>Clone\<close> of \<open>etherconn.VLANs\<close>; \<open>None\<close> is an error.
\<close>

record addr_lib =
  IncMACAddr :: "bytes \<Rightarrow> int \<Rightarrow> bytes option"
  IncreaseVLANIDs :: "uint16 list \<Rightarrow> int \<Rightarrow> uint16 list option"
  vlans_IDs :: "vlans \<Rightarrow> uint16 list"
  vlans_SetIDs :: "vlans \<Rightarrow> uint16 list \<Rightarrow> vlans option"
  vlans_Clone :: "vlans \<Rightarrow> vlans"

text \<open>
  Their documented behaviour: increasing a MAC address adds the step to it as a big-endian
  number of the same length; a clone has the same identifiers and tags; after setting
  identifiers, those are the identifiers, and there are as many tags as before.
\<close>

definition mac_value :: "bytes \<Rightarrow> int" where
  "mac_value bs = foldl (\<lambda>a b. a * 256 + uint b) 0 bs"

definition mac_law :: "addr_lib \<Rightarrow> bool" where
  "mac_law L \<longleftrightarrow>
     (\<forall>m k m'. IncMACAddr L m k = Some m' \<longrightarrow>
        mac_value m' = mac_value m + k \<and> length m' = length m)"

definition vlan_law :: "addr_lib \<Rightarrow> bool" where
  "vlan_law L \<longleftrightarrow>
     (\<forall>v. vlans_Clone L v = v)
     \<and> (\<forall>v ids v'. vlans_SetIDs L v ids = Some v' \<longrightarrow> vlans_IDs L v' = ids)"

section \<open>Client configurations\<close>

text \<open>An \<open>EtherConn\<close>, by the arguments it is created with.\<close>

record econn =
  ec_mac :: bytes
  ec_vlans :: vlans
  ec_etypes :: "uint16 list"

record clientConfig =
  Mac :: bytes
  VLANs :: vlans
  V4Options :: "v4opt list"
  V6Options :: "v6opt list"
  V6RelayOptions :: "v6opt list"
  v4econn :: "econn option"
  v6econn :: "econn option"

datatype gen_error = MacFailed | VlanFailed | VlanApplyFailed | TemplateVerb

section \<open>Template strings\<close>

text \<open>\<open>strings.Contains\<close> and \<open>strings.ReplaceAll\<close> for the marker \<open>@ID\<close>.\<close>

fun contains_id :: "string \<Rightarrow> bool" where
  "contains_id (a # b # c # cs) = ([a, b, c] = ''@ID'' \<or> contains_id (b # c # cs))"
| "contains_id _ = False"

fun replace_id :: "string \<Rightarrow> string" where
  "replace_id (a # b # c # cs) =
     (if [a, b, c] = ''@ID'' then ''%d'' @ replace_id cs else a # replace_id (b # c # cs))"
| "replace_id s = s"

text \<open>
  \<open>fmt.Sprintf(format, id)\<close> with one integer argument, for formats whose verbs are
  \<open>%d\<close> and \<open>%%\<close>: the first \<open>%d\<close> takes the argument, a later one has none; an
  argument never taken is reported at the end. Other verbs are outside the model
  (\<open>None\<close>).
\<close>

definition sprintf_extra :: "int \<Rightarrow> bool \<Rightarrow> string" where
  "sprintf_extra n used = (if used then [] else ''%!(EXTRA int='' @ itoa n @ '')'')"

fun sprintf_d :: "int \<Rightarrow> bool \<Rightarrow> string \<Rightarrow> string option" where
  "sprintf_d n used [] = Some (sprintf_extra n used)"
| "sprintf_d n used [c] =
     (if c = CHR ''%'' then Some (''%!(NOVERB)'' @ sprintf_extra n used)
      else Some (c # sprintf_extra n used))"
| "sprintf_d n used (c # v # cs) =
     (if c \<noteq> CHR ''%'' then map_option ((#) c) (sprintf_d n used (v # cs))
      else if v = CHR ''%'' then map_option ((#) (CHR ''%'')) (sprintf_d n used cs)
      else if v = CHR ''d''
        then map_option ((@) (if used then ''%!d(MISSING)'' else itoa n)) (sprintf_d n True cs)
      else None)"

definition genStrFunc :: "string \<Rightarrow> int \<Rightarrow> string option" where
  "genStrFunc s n = (if contains_id s then sprintf_d n False (replace_id s) else Some s)"

section \<open>One client\<close>

definition incvid_tries :: nat where "incvid_tries = 10"

text \<open>The loop of \<open>incvidFunc\<close> with the iterations left.\<close>

fun incvid_loop :: "addr_lib \<Rightarrow> uint16 list \<Rightarrow> int \<Rightarrow> nat \<Rightarrow> uint16 list
    \<Rightarrow> uint16 list option" where
  "incvid_loop L excludes step 0 newids = None"
| "incvid_loop L excludes step (Suc k) newids =
     (case IncreaseVLANIDs L newids step of
        None \<Rightarrow> None
      | Some ids \<Rightarrow>
          if excluded_loop excludes ids then incvid_loop L excludes step k ids else Some ids)"

definition incvidFunc :: "addr_lib \<Rightarrow> uint16 list \<Rightarrow> uint16 list \<Rightarrow> int \<Rightarrow> uint16 list option" where
  "incvidFunc L ids excludes step = incvid_loop L excludes step incvid_tries ids"

definition assign_mac :: "addr_lib \<Rightarrow> testSetup \<Rightarrow> nat \<Rightarrow> bytes \<Rightarrow> (gen_error, bytes) gores" where
  "assign_mac L setup i clntmac =
     (if i > 0 then
        case IncMACAddr L clntmac (sint (MacStep setup)) of
          None \<Rightarrow> Fail MacFailed | Some m \<Rightarrow> Ok m
      else Ok clntmac)"

definition assign_vlans :: "addr_lib \<Rightarrow> testSetup \<Rightarrow> nat \<Rightarrow> vlans \<Rightarrow> (gen_error, vlans) gores" where
  "assign_vlans L setup i vlans =
     (if (length vlans > 0 \<and> i > 0) \<or> excluded setup (vlans_IDs L vlans) then
        case incvidFunc L (vlans_IDs L vlans) (ExcludedVLANs setup) (sint (VLANStep setup)) of
          None \<Rightarrow> Fail VlanFailed
        | Some rids \<Rightarrow>
            (case vlans_SetIDs L (vlans_Clone L vlans) rids of
               None \<Rightarrow> Fail VlanApplyFailed | Some vs \<Rightarrow> Ok vs)
      else Ok (vlans_Clone L vlans))"

definition template :: "string \<Rightarrow> nat \<Rightarrow> (gen_error, bytes) gores" where
  "template s i =
     (case genStrFunc s (int i) of None \<Rightarrow> Fail TemplateVerb | Some t \<Rightarrow> Ok (bytes_of_string t))"

definition relay_options :: "v6api \<Rightarrow> testSetup \<Rightarrow> bytes \<Rightarrow> bytes \<Rightarrow> v6opt list" where
  "relay_options A setup rid cid =
     (let os = (if RID setup \<noteq> [] then options_add A [] (OptRemoteID BBFEnterpriseNumber rid) else [])
      in if CID setup \<noteq> [] then options_add A os (OptInterfaceID cid) else os)"

definition option82 :: "testSetup \<Rightarrow> bytes \<Rightarrow> bytes \<Rightarrow> v4opt list" where
  "option82 setup rid cid =
     (if RID setup \<noteq> [] \<or> CID setup \<noteq> [] then
        [OptRelayAgentInfo
          ((if RID setup \<noteq> [] then [AgentRemoteID rid] else [])
           @ (if CID setup \<noteq> [] then [AgentCircuitID cid] else []))]
      else [])"

definition gen_client :: "v6api \<Rightarrow> addr_lib \<Rightarrow> testSetup \<Rightarrow> nat \<Rightarrow> bytes \<Rightarrow> vlans
    \<Rightarrow> (gen_error, clientConfig) gores" where
  "gen_client A L setup i clntmac vlans =
     gbind (assign_mac L setup i clntmac) (\<lambda>mac.
     gbind (assign_vlans L setup i vlans) (\<lambda>vs.
     gbind (template (RID setup) i) (\<lambda>rid.
     gbind (template (CID setup) i) (\<lambda>cid.
     gbind (template (ClntID setup) i) (\<lambda>clid.
       Ok \<lparr>Mac = mac, VLANs = vs,
           V4Options = v4Options setup @ option82 setup rid cid
             @ (if ClntID setup \<noteq> [] then [OptClientIdentifier clid] else []),
           V6Options =
             (if ClntID setup \<noteq> []
              then options_add A (v6Options setup) (OptClientID (DUIDEN BBFEnterpriseNumber clid))
              else v6Options setup),
           V6RelayOptions = relay_options A setup rid cid,
           v4econn = (if EnableV4 setup
             then Some \<lparr>ec_mac = mac, ec_vlans = vs, ec_etypes = [EthernetTypeIPv4]\<rparr> else None),
           v6econn = (if EnableV6 setup
             then Some \<lparr>ec_mac = mac, ec_vlans = vs, ec_etypes = [EthernetTypeIPv6]\<rparr> else None)\<rparr>)))))"

section \<open>All clients\<close>

text \<open>The loop over the client indices; each client starts from the one before.\<close>

fun gen_loop :: "v6api \<Rightarrow> addr_lib \<Rightarrow> testSetup \<Rightarrow> nat list \<Rightarrow> bytes \<Rightarrow> vlans
    \<Rightarrow> (gen_error, clientConfig list) gores" where
  "gen_loop A L setup [] clntmac vlans = Ok []"
| "gen_loop A L setup (i # is) clntmac vlans =
     gbind (gen_client A L setup i clntmac vlans) (\<lambda>ccfg.
     gbind (gen_loop A L setup is (Mac ccfg) (VLANs ccfg)) (\<lambda>r. Ok (ccfg # r)))"

definition num_clients :: "testSetup \<Rightarrow> nat" where
  "num_clients setup = nat (sint (NumOfClients setup))"

definition genClientConfigurations :: "v6api \<Rightarrow> addr_lib \<Rightarrow> testSetup
    \<Rightarrow> (gen_error, clientConfig list) gores" where
  "genClientConfigurations A L setup =
     gen_loop A L setup [0..<num_clients setup] (StartMAC setup) (StartVLANs setup)"

section \<open>Lemmas: template strings\<close>

lemma contains_id_append: "contains_id (xs @ ''@ID'' @ ys)"
proof (induction xs)
  case Nil
  then show ?case by simp
next
  case (Cons x xs)
  obtain b c cs where "xs @ ''@ID'' @ ys = b # c # cs"
    by (cases xs; cases "tl xs") auto
  with Cons show ?case by simp
qed

lemma replace_id_plain: "CHR ''@'' \<notin> set xs \<Longrightarrow> replace_id xs = xs"
  by (induction xs rule: replace_id.induct) auto

lemma replace_id_marker:
  "CHR ''@'' \<notin> set xs \<Longrightarrow> replace_id (xs @ ''@ID'' @ ys) = xs @ ''%d'' @ replace_id ys"
proof (induction xs)
  case Nil
  then show ?case by simp
next
  case (Cons x xs)
  obtain b c cs where e: "xs @ ''@ID'' @ ys = b # c # cs"
    by (cases xs; cases "tl xs") auto
  from Cons e show ?case by auto
qed

lemma sprintf_plain:
  "CHR ''%'' \<notin> set xs \<Longrightarrow> ys \<noteq> []
    \<Longrightarrow> sprintf_d n used (xs @ ys) = map_option ((@) xs) (sprintf_d n used ys)"
proof (induction xs)
  case Nil
  show ?case by (simp add: option.map_ident)
next
  case (Cons x xs)
  obtain c cs where e: "xs @ ys = c # cs" using Cons.prems(2) by (cases xs; cases ys) auto
  from Cons.prems Cons.IH have "sprintf_d n used (c # cs) = map_option ((@) xs) (sprintf_d n used ys)"
    by (simp add: e [symmetric])
  with Cons.prems(1) show ?case by (auto simp: e option.map_comp comp_def)
qed

lemma sprintf_used: "CHR ''%'' \<notin> set xs \<Longrightarrow> sprintf_d n True xs = Some xs"
proof (induction xs)
  case (Cons x xs)
  then show ?case by (cases xs) (auto simp: sprintf_extra_def)
qed (simp add: sprintf_extra_def)

lemma sprintf_verb:
  "sprintf_d n False (''%d'' @ xs) = map_option ((@) (itoa n)) (sprintf_d n True xs)"
  by simp

lemma genStr_marker:
  assumes "CHR ''@'' \<notin> set pre" "CHR ''%'' \<notin> set pre" "CHR ''@'' \<notin> set post" "CHR ''%'' \<notin> set post"
  shows "genStrFunc (pre @ ''@ID'' @ post) n = Some (pre @ itoa n @ post)"
proof -
  have "genStrFunc (pre @ ''@ID'' @ post) n = sprintf_d n False (pre @ ''%d'' @ post)"
    using contains_id_append [of pre post] replace_id_marker [OF assms(1), of post]
      replace_id_plain [OF assms(3)]
    by (simp add: genStrFunc_def)
  also have "\<dots> = map_option ((@) pre) (map_option ((@) (itoa n)) (Some post))"
    using sprintf_plain [OF assms(2), of "''%d'' @ post" n False] sprintf_used [OF assms(4), of n]
    by simp
  finally show ?thesis by simp
qed

section \<open>Lemmas: the VLAN loop\<close>

lemma excluded_loop_iff: "excluded_loop ex ids \<longleftrightarrow> (\<exists>v \<in> set ids. v \<in> set ex)"
  by (induction ids) auto

text \<open>\<open>incs\<close> is the identifiers after \<open>j\<close> increases, if none of them fails.\<close>

fun incs :: "addr_lib \<Rightarrow> int \<Rightarrow> nat \<Rightarrow> uint16 list \<Rightarrow> uint16 list option" where
  "incs L step 0 ids = Some ids"
| "incs L step (Suc j) ids =
     (case IncreaseVLANIDs L ids step of None \<Rightarrow> None | Some ids' \<Rightarrow> incs L step j ids')"

lemma incvid_loop_Some:
  "incvid_loop L ex step k ids = Some r \<Longrightarrow>
     \<exists>j. 0 < j \<and> j \<le> k \<and> incs L step j ids = Some r \<and> \<not> excluded_loop ex r
       \<and> (\<forall>i. 0 < i \<and> i < j \<longrightarrow> (\<exists>m. incs L step i ids = Some m \<and> excluded_loop ex m))"
proof (induction k arbitrary: ids)
  case 0
  then show ?case by simp
next
  case (Suc k)
  from Suc.prems obtain ids' where ids': "IncreaseVLANIDs L ids step = Some ids'"
    by (auto split: option.splits)
  show ?case
  proof (cases "excluded_loop ex ids'")
    case False
    with Suc.prems ids' show ?thesis by (intro exI [of _ 1]) auto
  next
    case True
    with Suc.prems ids' have "incvid_loop L ex step k ids' = Some r" by simp
    from Suc.IH [OF this] obtain j where j: "0 < j" "j \<le> k" "incs L step j ids' = Some r"
      "\<not> excluded_loop ex r"
      "\<And>i. 0 < i \<Longrightarrow> i < j \<Longrightarrow> \<exists>m. incs L step i ids' = Some m \<and> excluded_loop ex m"
      by blast
    have "\<exists>m. incs L step i ids = Some m \<and> excluded_loop ex m" if i: "0 < i" "i < Suc j" for i
    proof -
      obtain i' where "i = Suc i'" using i(1) by (cases i) auto
      then show ?thesis using ids' True j(5) [of i'] i(2) by (cases i') auto
    qed
    with j ids' show ?thesis by (intro exI [of _ "Suc j"]) auto
  qed
qed

section \<open>Lemmas: the client loop\<close>

lemma gen_client_OkD:
  assumes "gen_client A L setup i clntmac vlans = Ok c"
  shows "assign_mac L setup i clntmac = Ok (Mac c)" "assign_vlans L setup i vlans = Ok (VLANs c)"
    "v4econn c = (if EnableV4 setup
       then Some \<lparr>ec_mac = Mac c, ec_vlans = VLANs c, ec_etypes = [EthernetTypeIPv4]\<rparr> else None)"
    "v6econn c = (if EnableV6 setup
       then Some \<lparr>ec_mac = Mac c, ec_vlans = VLANs c, ec_etypes = [EthernetTypeIPv6]\<rparr> else None)"
  using assms by (auto simp: gen_client_def gbind_eq_Ok)

lemma gen_loop_Cons:
  "gen_loop A L setup (i # is) m v = Ok r \<longleftrightarrow>
     (\<exists>c cs. gen_client A L setup i m v = Ok c
        \<and> gen_loop A L setup is (Mac c) (VLANs c) = Ok cs \<and> r = c # cs)"
  by (auto simp: gbind_eq_Ok)

declare gen_loop.simps(2) [simp del]

lemma gen_loop_length: "gen_loop A L setup is m v = Ok r \<Longrightarrow> length r = length is"
  by (induction "is" arbitrary: m v r) (auto simp: gen_loop_Cons)

text \<open>A relation between consecutive clients and a property of each, carried along the loop.\<close>

lemma gen_loop_all:
  assumes "gen_loop A L setup is m v = Ok r"
    and "\<And>i m v c. i \<in> set is \<Longrightarrow> gen_client A L setup i m v = Ok c \<Longrightarrow> P c"
  shows "\<forall>c \<in> set r. P c"
  using assms
proof (induction "is" arbitrary: m v r)
  case (Cons i "is")
  from Cons.prems(1) obtain c cs where c: "gen_client A L setup i m v = Ok c"
    "gen_loop A L setup is (Mac c) (VLANs c) = Ok cs" "r = c # cs"
    by (auto simp: gen_loop_Cons)
  have "\<forall>c \<in> set cs. P c"
    by (rule Cons.IH [OF c(2)], rule Cons.prems(2)) simp_all
  with Cons.prems(2) [OF _ c(1)] c(3) show ?case by simp
qed simp

lemma gen_loop_macs:
  assumes law: "mac_law L"
  shows "gen_loop A L setup [j..<k] m v = Ok r \<Longrightarrow> i < length r
    \<Longrightarrow> mac_value (Mac (r ! i))
          = mac_value m + (int i + (if j = 0 then 0 else 1)) * sint (MacStep setup)
      \<and> length (Mac (r ! i)) = length m"
proof (induction "[j..<k]" arbitrary: j m v r i)
  case Nil
  then show ?case by simp
next
  case (Cons a x)
  then have jk: "[j..<k] = j # [Suc j..<k]" "a = j" "x = [Suc j..<k]"
    using Cons.hyps(2) [symmetric] by (auto simp: upt_eq_Cons_conv)
  from Cons.prems(1) jk(1) obtain c cs where c: "gen_client A L setup j m v = Ok c"
    "gen_loop A L setup [Suc j..<k] (Mac c) (VLANs c) = Ok cs" "r = c # cs"
    by (auto simp: gen_loop_Cons)
  have mc: "mac_value (Mac c) = mac_value m + (if j = 0 then 0 else 1) * sint (MacStep setup)
      \<and> length (Mac c) = length m"
    using gen_client_OkD(1) [OF c(1)] law
    by (auto simp: assign_mac_def mac_law_def split: if_splits option.splits)
  show ?case
  proof (cases i)
    case 0
    with mc c(3) show ?thesis by simp
  next
    case (Suc i')
    have "i' < length cs" using Cons.prems(2) c(3) Suc by simp
    from Cons.hyps(1) [OF jk(3) c(2) this] mc c(3) Suc show ?thesis
      by (auto simp: algebra_simps)
  qed
qed

lemma genClientConfigurations_macs:
  assumes "mac_law L" "genClientConfigurations A L setup = Ok r" "i < length r"
  shows "mac_value (Mac (r ! i)) = mac_value (StartMAC setup) + int i * sint (MacStep setup)"
    "length (Mac (r ! i)) = length (StartMAC setup)"
  using gen_loop_macs [OF assms(1) assms(2) [unfolded genClientConfigurations_def] assms(3)]
  by simp_all

lemma genClientConfigurations_distinct:
  assumes "mac_law L" "genClientConfigurations A L setup = Ok r" "MacStep setup \<noteq> 0"
  shows "distinct (map Mac r)"
proof -
  have "sint (MacStep setup) \<noteq> 0"
    using assms(3) signed_eq_0_iff by blast
  then have "Mac (r ! i) \<noteq> Mac (r ! j)" if "i < length r" "j < length r" "i \<noteq> j" for i j
    using genClientConfigurations_macs(1) [OF assms(1,2) that(1)]
      genClientConfigurations_macs(1) [OF assms(1,2) that(2)] that(3)
    by auto
  then show ?thesis by (simp add: distinct_conv_nth)
qed

lemma genClientConfigurations_length:
  "genClientConfigurations A L setup = Ok r \<Longrightarrow> length r = num_clients setup"
  using gen_loop_length by (fastforce simp: genClientConfigurations_def)

lemma genClientConfigurations_conns:
  assumes "genClientConfigurations A L setup = Ok r" and "c \<in> set r"
  shows "v4econn c = (if EnableV4 setup
       then Some \<lparr>ec_mac = Mac c, ec_vlans = VLANs c, ec_etypes = [EthernetTypeIPv4]\<rparr> else None)"
    "v6econn c = (if EnableV6 setup
       then Some \<lparr>ec_mac = Mac c, ec_vlans = VLANs c, ec_etypes = [EthernetTypeIPv6]\<rparr> else None)"
  using gen_loop_all [OF assms(1) [unfolded genClientConfigurations_def], where P = "\<lambda>c.
       v4econn c = (if EnableV4 setup
         then Some \<lparr>ec_mac = Mac c, ec_vlans = VLANs c, ec_etypes = [EthernetTypeIPv4]\<rparr> else None)
     \<and> v6econn c = (if EnableV6 setup
         then Some \<lparr>ec_mac = Mac c, ec_vlans = VLANs c, ec_etypes = [EthernetTypeIPv6]\<rparr> else None)"]
    assms(2)
  by (simp_all add: gen_client_OkD(3,4))

section \<open>A concrete library for the witnesses\<close>

text \<open>
  An instance of the library functions that keeps both laws: MAC addresses are increased in
  their last byte (an error when it would overflow), identifiers are increased one by one.
\<close>

definition last_byte_inc :: "bytes \<Rightarrow> int \<Rightarrow> bytes option" where
  "last_byte_inc m k =
     (if m \<noteq> [] \<and> 0 \<le> uint (last m) + k \<and> uint (last m) + k < 256
      then Some (butlast m @ [word_of_int (uint (last m) + k)]) else None)"

definition example_lib :: addr_lib where
  "example_lib =
     \<lparr>IncMACAddr = last_byte_inc,
      IncreaseVLANIDs = (\<lambda>ids k. Some (map (\<lambda>v. v + word_of_int k) ids)),
      vlans_IDs = map vlan_id,
      vlans_SetIDs = (\<lambda>v ids. if length v = length ids
        then Some (map2 (\<lambda>t i. t\<lparr>vlan_id := i\<rparr>) v ids) else None),
      vlans_Clone = (\<lambda>v. v)\<rparr>"

lemma mac_value_snoc: "mac_value (bs @ [b]) = mac_value bs * 256 + uint b"
  by (simp add: mac_value_def)

lemma example_mac_law: "mac_law example_lib"
proof -
  have "mac_value m' = mac_value m + k \<and> length m' = length m"
    if h: "last_byte_inc m k = Some m'" for m k m'
  proof -
    from h obtain bs b where m: "m = bs @ [b]"
      by (cases m rule: rev_cases) (auto simp: last_byte_inc_def)
    from h have r: "0 \<le> uint b + k" "uint b + k < 256" "m' = bs @ [word_of_int (uint b + k)]"
      by (auto simp: m last_byte_inc_def split: if_splits)
    then have "uint (word_of_int (uint b + k) :: byte) = uint b + k"
      by (simp only: uint_word_of_int) simp
    with r(3) m show ?thesis by (simp add: mac_value_snoc)
  qed
  then show ?thesis by (auto simp: mac_law_def example_lib_def)
qed

lemma map_ids_update:
  "length v = length ids \<Longrightarrow> map vlan_id (map2 (\<lambda>t i. t\<lparr>vlan_id := i\<rparr>) v ids) = ids"
  by (rule nth_equalityI) simp_all

lemma example_vlan_law: "vlan_law example_lib"
  unfolding vlan_law_def example_lib_def
  by (auto simp del: map_map simp: map_ids_update split: if_splits)

text \<open>A library of DHCPv6 functions that appends options, for the same purpose.\<close>

definition example_api :: v6api where
  "example_api =
     \<lparr>new_message = Some \<lparr>msg_type = MTNone, msg_opts = []\<rparr>,
      add_option = (\<lambda>m x. m\<lparr>msg_opts := msg_opts m @ [x]\<rparr>),
      with_option = (\<lambda>x m. m\<lparr>msg_opts := msg_opts m @ [x]\<rparr>),
      with_iaid = (\<lambda>i m. m\<lparr>msg_opts := msg_opts m @ [OptIANA i []]\<rparr>),
      with_iapd = (\<lambda>i m. m\<lparr>msg_opts := msg_opts m @ [OptIAPD i []]\<rparr>),
      get_one = (\<lambda>os c. find (\<lambda>x. (case x of
           OptClientID _ \<Rightarrow> c = OptionClientID | OptServerID _ \<Rightarrow> c = OptionServerID
         | OptIANA _ _ \<Rightarrow> c = OptionIANA | OptIAPD _ _ \<Rightarrow> c = OptionIAPD
         | OptVendorClass _ _ \<Rightarrow> c = OptionVendorClass | _ \<Rightarrow> False)) os),
      get_all = (\<lambda>os c. filter (\<lambda>x. (case x of
           OptClientID _ \<Rightarrow> c = OptionClientID | OptServerID _ \<Rightarrow> c = OptionServerID
         | OptIANA _ _ \<Rightarrow> c = OptionIANA | OptIAPD _ _ \<Rightarrow> c = OptionIAPD
         | OptVendorClass _ _ \<Rightarrow> c = OptionVendorClass | _ \<Rightarrow> False)) os),
      one_iana = (\<lambda>os. find (\<lambda>x. case x of OptIANA _ _ \<Rightarrow> True | _ \<Rightarrow> False) os),
      one_iapd = (\<lambda>os. find (\<lambda>x. case x of OptIAPD _ _ \<Rightarrow> True | _ \<Rightarrow> False) os),
      options_add = (\<lambda>xs x. xs @ [x])\<rparr>"

lemma example_appends: "appends_options example_api"
  by (simp add: appends_options_def example_api_def)

definition example_setup :: testSetup where
  "example_setup = (newDefaultConf 0x8100)
     \<lparr>Ifname := ''eth1'', NumOfClients := 3, StartMAC := [2, 0, 0, 0, 0, 7],
      StartVLANs := [\<lparr>vlan_id = 100, vlan_etype = 0x8100\<rparr>],
      ExcludedVLANs := [100, 102], ClntID := ''c-@ID'', EnableV6 := True\<rparr>"

abbreviation example_clients :: "clientConfig list" where
  "example_clients \<equiv> the_ok (genClientConfigurations example_api example_lib example_setup)"

lemma example_gen: "genClientConfigurations example_api example_lib example_setup = Ok example_clients"
proof -
  have "is_Ok (genClientConfigurations example_api example_lib example_setup)" by code_simp
  then show ?thesis by simp
qed

text \<open>
  a successful generation gives exactly as many configurations as clients were asked for,
  and the connections of each are for its own MAC address and VLAN tags, one per enabled
  protocol.
\<close>

theorem gen_count_and_conns:
  assumes "genClientConfigurations A L setup = Ok r"
  shows "length r = num_clients setup
    \<and> (\<forall>c \<in> set r.
         v4econn c = (if EnableV4 setup
           then Some \<lparr>ec_mac = Mac c, ec_vlans = VLANs c, ec_etypes = [EthernetTypeIPv4]\<rparr> else None)
       \<and> v6econn c = (if EnableV6 setup
           then Some \<lparr>ec_mac = Mac c, ec_vlans = VLANs c, ec_etypes = [EthernetTypeIPv6]\<rparr> else None))"
  using assms by (simp add: genClientConfigurations_length genClientConfigurations_conns)

theorem gen_count_and_conns_witness: "length example_clients = 3"
proof -
  have "num_clients example_setup = 3" by code_simp
  with gen_count_and_conns [OF example_gen] show ?thesis by simp
qed



text \<open>
  no generated client uses an excluded VLAN identifier, the first one included.
\<close>

theorem gen_avoids_excluded:
  assumes "vlan_law L" and "genClientConfigurations A L setup = Ok r" and "c \<in> set r"
  shows "\<not> excluded setup (vlans_IDs L (VLANs c))"
proof -
  have "\<not> excluded setup (vlans_IDs L v')" if "assign_vlans L setup i v = Ok v'" for i v v'
    using that assms(1) incvid_loop_Some
    by (fastforce simp: assign_vlans_def vlan_law_def incvidFunc_def excluded_def
        split: if_splits option.splits)
  then have "\<forall>c \<in> set r. \<not> excluded setup (vlans_IDs L (VLANs c))"
    using gen_loop_all [OF assms(2) [unfolded genClientConfigurations_def],
        where P = "\<lambda>c. \<not> excluded setup (vlans_IDs L (VLANs c))"]
    by (blast dest: gen_client_OkD(2))
  with assms(3) show ?thesis by blast
qed

theorem gen_avoids_excluded_witness:
  "\<not> excluded example_setup (vlans_IDs example_lib (VLANs (hd example_clients)))"
proof -
  have "length example_clients = 3" by code_simp
  then have "hd example_clients \<in> set example_clients" by (intro hd_in_set) auto
  from gen_avoids_excluded [OF example_vlan_law example_gen this] show ?thesis .
qed

text \<open>
  \<open>incvidFunc\<close> returns the identifiers after the least number of increases, between one
  and ten, after which none is excluded.
\<close>

theorem incvid_first_allowed:
  assumes "incvidFunc L ids excl step = Some r"
  shows "\<exists>j. 0 < j \<and> j \<le> 10 \<and> incs L step j ids = Some r
      \<and> (\<forall>v \<in> set r. v \<notin> set excl)
      \<and> (\<forall>i. 0 < i \<and> i < j \<longrightarrow> (\<exists>m. incs L step i ids = Some m \<and> (\<exists>v \<in> set m. v \<in> set excl)))"
  using incvid_loop_Some [OF assms [unfolded incvidFunc_def incvid_tries_def]]
  by (simp only: excluded_loop_iff) blast

theorem incvid_first_allowed_witness:
  "\<exists>j. 0 < j \<and> incs example_lib 1 j [100] = Some [103]"
proof -
  have "incvidFunc example_lib [100] [101, 102] 1 = Some [103]" by code_simp
  from incvid_first_allowed [OF this] show ?thesis by blast
qed

text \<open>
  in a template with one \<open>@ID\<close> (and no other \<open>@\<close> or \<open>%\<close>) the marker is
  replaced by the client's index, so clients with different indices get different strings.
\<close>

theorem template_index:
  assumes "CHR ''@'' \<notin> set pre" and "CHR ''%'' \<notin> set pre"
    and "CHR ''@'' \<notin> set post" and "CHR ''%'' \<notin> set post"
  shows "genStrFunc (pre @ ''@ID'' @ post) i = Some (pre @ itoa i @ post)
    \<and> (i \<noteq> j \<longrightarrow> genStrFunc (pre @ ''@ID'' @ post) i \<noteq> genStrFunc (pre @ ''@ID'' @ post) j)"
  using genStr_marker [OF assms, of i] genStr_marker [OF assms, of j] itoa_inj by auto

theorem template_index_witness: "genStrFunc (''Client-'' @ ''@ID'' @ []) 12 = Some ''Client-12''"
proof -
  have "itoa 12 = ''12''" by code_simp
  with template_index [of "''Client-''" "[]" 12] show ?thesis by simp
qed

text \<open>
  only the first \<open>@ID\<close> of a template is replaced by the index: the second one becomes the
  text \<open>%!d(MISSING)\<close>, the same for every client.
\<close>

theorem template_second_marker:
  assumes "CHR ''@'' \<notin> set pre" and "CHR ''%'' \<notin> set pre"
    and "CHR ''@'' \<notin> set mid" and "CHR ''%'' \<notin> set mid"
    and "CHR ''@'' \<notin> set post" and "CHR ''%'' \<notin> set post"
  shows "genStrFunc (pre @ ''@ID'' @ mid @ ''@ID'' @ post) i
           = Some (pre @ itoa i @ mid @ ''%!d(MISSING)'' @ post)"
proof -
  have r: "replace_id (pre @ ''@ID'' @ mid @ ''@ID'' @ post) = pre @ ''%d'' @ mid @ ''%d'' @ post"
    using replace_id_marker [OF assms(1), of "mid @ ''@ID'' @ post"]
      replace_id_marker [OF assms(3), of post] replace_id_plain [OF assms(5)] by simp
  have "sprintf_d i True (mid @ ''%d'' @ post) = Some (mid @ ''%!d(MISSING)'' @ post)"
    using sprintf_plain [OF assms(4), of "''%d'' @ post" i True] sprintf_used [OF assms(6), of i]
    by simp
  then have "sprintf_d i False (pre @ ''%d'' @ mid @ ''%d'' @ post)
      = Some (pre @ itoa i @ mid @ ''%!d(MISSING)'' @ post)"
    using sprintf_plain [OF assms(2), of "''%d'' @ mid @ ''%d'' @ post" i False] by simp
  with r show ?thesis
    using contains_id_append [of pre "mid @ ''@ID'' @ post"] by (simp add: genStrFunc_def)
qed

theorem template_second_marker_witness:
  "genStrFunc ([] @ ''@ID'' @ ''-'' @ ''@ID'' @ []) 5 = Some ''5-%!d(MISSING)''"
proof -
  have "itoa 5 = ''5''" by code_simp
  with template_second_marker [of "[]" "''-''" "[]" 5] show ?thesis by simp
qed

end
