(* ===== verification/Lease.thy ===== *)
theory Lease
  imports ClientGen
begin

text \<open>
  Leases (\<open>lease.go\<close>, \<open>v4lease.go\<close>): the lease structs, the addresses they stand for,
  applying them to an interface, the release message of a DHCPv6 lease, and the table of leases
  that \<open>saveLeaseToFiles\<close> collects.
\<close>

section \<open>Lease structs\<close>

record myDHCPv4Lease =
  Offer :: dhcp4
  ACK :: dhcp4
  CreationTime :: gotime

record v4Lease =
  Lease4 :: "myDHCPv4Lease option"
  VLANList :: vlans
  IDOptions4 :: "(byte \<times> bytes) list"

definition newV4Lease :: v4Lease where
  "newV4Lease = \<lparr>Lease4 = None, VLANList = [], IDOptions4 = []\<rparr>"

record v6Lease =
  MAC6 :: bytes
  ReplyOptions :: "v6opt list"
  LeaseType :: mtype
  VLANList6 :: vlans
  IDOptions6 :: "v6opt list"
  RelayIDOptions :: "v6opt list"

section \<open>Addresses of a lease\<close>

text \<open>
  A prefix stands for its text form \<open>address/length\<close>. The length of a v4 lease's prefix is that
  of the subnet mask, which the library keeps.
\<close>

datatype cidr = Cidr4 netip bytes | Cidr6 netip nat

definition v4_addrStr :: "v4api \<Rightarrow> v4Lease \<Rightarrow> (unit, cidr) gores" where
  "v4_addrStr B l =
     (case Lease4 l of
        None \<Rightarrow> Panic
      | Some ml \<Rightarrow> Ok (Cidr4 (YourIPAddr (ACK ml)) (SubnetMask B (ACK ml))))"

text \<open>
  The type assertions \<open>na.(*dhcpv6.OptIANA)\<close> and \<open>pd.(*dhcpv6.OptIAPD)\<close> panic on an
  option of another type.
\<close>

fun iana_cidrs :: "v6opt list \<Rightarrow> (unit, cidr list) gores" where
  "iana_cidrs [] = Ok []"
| "iana_cidrs (OptIANA i addrs # os) =
     gbind (iana_cidrs os) (\<lambda>r. Ok (map (\<lambda>a. Cidr6 a 128) addrs @ r))"
| "iana_cidrs _ = Panic"

fun iapd_cidrs :: "v6opt list \<Rightarrow> (unit, cidr list) gores" where
  "iapd_cidrs [] = Ok []"
| "iapd_cidrs (OptIAPD i prefixes # os) =
     gbind (iapd_cidrs os) (\<lambda>r. Ok (map (\<lambda>(a, n). Cidr6 a n) prefixes @ r))"
| "iapd_cidrs _ = Panic"

definition v6_addrStr :: "v6api \<Rightarrow> v6Lease \<Rightarrow> (unit, cidr list) gores" where
  "v6_addrStr A l =
     gbind (iana_cidrs (get_all A (ReplyOptions l) OptionIANA)) (\<lambda>nas.
     gbind (iapd_cidrs (get_all A (ReplyOptions l) OptionIAPD)) (\<lambda>pds. Ok (nas @ pds)))"

section \<open>Applying a lease to an interface\<close>

text \<open>
  The kernel interface (\<open>netlink\<close>): whether the link exists, an address parses and an
  address can be replaced or deleted. The calls made are recorded.
\<close>

record netlink =
  LinkByName :: "string \<Rightarrow> bool"
  ParseAddr :: "cidr \<Rightarrow> bool"
  AddrReplace_ok :: "cidr \<Rightarrow> bool"
  AddrDel_ok :: "cidr \<Rightarrow> bool"

datatype nlop = AddrReplace cidr | AddrDel cidr

datatype apply_error = NoLink | BadAddr | ReplaceFailed | DelFailed

definition v4_Apply :: "v4api \<Rightarrow> netlink \<Rightarrow> v4Lease \<Rightarrow> string \<Rightarrow> bool
    \<Rightarrow> nlop list \<times> (apply_error, unit) gores" where
  "v4_Apply B N l ifname apply =
     (if \<not> LinkByName N ifname then ([], Fail NoLink)
      else case v4_addrStr B l of
        Ok a \<Rightarrow>
          if \<not> ParseAddr N a then ([], Fail BadAddr)
          else if apply then ([AddrReplace a], if AddrReplace_ok N a then Ok () else Fail ReplaceFailed)
          else ([AddrDel a], if AddrDel_ok N a then Ok () else Fail DelFailed)
      | _ \<Rightarrow> ([], Panic))"

text \<open>The loop over the addresses: applying returns from inside the loop.\<close>

fun v6_Apply_loop :: "netlink \<Rightarrow> bool \<Rightarrow> cidr list \<Rightarrow> nlop list \<times> (apply_error, unit) gores" where
  "v6_Apply_loop N apply [] = ([], Ok ())"
| "v6_Apply_loop N apply (a # as) =
     (if \<not> ParseAddr N a then ([], Fail BadAddr)
      else if apply then ([AddrReplace a], if AddrReplace_ok N a then Ok () else Fail ReplaceFailed)
      else case v6_Apply_loop N apply as of (ops, r) \<Rightarrow> (AddrDel a # ops, r))"

definition v6_Apply :: "v6api \<Rightarrow> netlink \<Rightarrow> v6Lease \<Rightarrow> string \<Rightarrow> bool
    \<Rightarrow> nlop list \<times> (apply_error, unit) gores" where
  "v6_Apply A N l ifname apply =
     (if \<not> LinkByName N ifname then ([], Fail NoLink)
      else case v6_addrStr A l of
        Ok as \<Rightarrow> v6_Apply_loop N apply as
      | _ \<Rightarrow> ([], Panic))"

section \<open>The release message of a DHCPv6 lease\<close>

datatype msg_error = NewMessageFailed

definition nilable :: "v6opt option \<Rightarrow> v6opt" where
  "nilable x = (case x of None \<Rightarrow> NilOption | Some v \<Rightarrow> v)"

definition Genv6Release :: "v6api \<Rightarrow> v6Lease \<Rightarrow> mtype \<Rightarrow> (msg_error, v6msg) gores" where
  "Genv6Release A l mt =
     (case new_message A of
        None \<Rightarrow> Fail NewMessageFailed
      | Some msg \<Rightarrow>
          let msg = msg\<lparr>msg_type := mt\<rparr>;
              msg = add_option A msg (nilable (get_one A (ReplyOptions l) OptionClientID));
              msg = add_option A msg (nilable (get_one A (ReplyOptions l) OptionServerID));
              msg = add_option A msg (OptElapsedTime 0);
              msg = foldl (add_option A) msg (get_all A (ReplyOptions l) OptionIANA);
              msg = foldl (add_option A) msg (get_all A (ReplyOptions l) OptionIAPD)
          in Ok msg)"

section \<open>The table of saved leases\<close>

type_synonym clientID = string

record fullStackLease =
  V4 :: "v4Lease option"
  V6 :: "v6Lease option"

type_synonym leaseMap = "clientID \<rightharpoonup> fullStackLease"

definition put_v4 :: "clientID \<Rightarrow> v4Lease \<Rightarrow> leaseMap \<Rightarrow> leaseMap" where
  "put_v4 i l m =
     (case m i of
        Some fl \<Rightarrow> m(i \<mapsto> fl\<lparr>V4 := Some l\<rparr>)
      | None \<Rightarrow> m(i \<mapsto> \<lparr>V4 = Some l, V6 = None\<rparr>))"

definition put_v6 :: "clientID \<Rightarrow> v6Lease \<Rightarrow> leaseMap \<Rightarrow> leaseMap" where
  "put_v6 i l m =
     (case m i of
        Some fl \<Rightarrow> m(i \<mapsto> fl\<lparr>V6 := Some l\<rparr>)
      | None \<Rightarrow> m(i \<mapsto> \<lparr>V4 = None, V6 = Some l\<rparr>))"

text \<open>One iteration of the saver's loop that received a lease from one of the two channels.\<close>

datatype saved = Saved4 clientID v4Lease | Saved6 clientID v6Lease

fun save_step :: "saved \<Rightarrow> leaseMap \<Rightarrow> leaseMap" where
  "save_step (Saved4 i l) m = put_v4 i l m"
| "save_step (Saved6 i l) m = put_v6 i l m"

section \<open>Interface: a table with two entries per client\<close>

text \<open>
  The contract of the lease table: an entry is what was last stored for that client and protocol,
  and storing one protocol's lease keeps the other's.
\<close>

locale lease_table =
  fixes store4 :: "'k \<Rightarrow> 'a \<Rightarrow> 't \<Rightarrow> 't"
    and store6 :: "'k \<Rightarrow> 'b \<Rightarrow> 't \<Rightarrow> 't"
    and get4 :: "'t \<Rightarrow> 'k \<Rightarrow> 'a option"
    and get6 :: "'t \<Rightarrow> 'k \<Rightarrow> 'b option"
  assumes get4_store4: "get4 (store4 k l t) k' = (if k' = k then Some l else get4 t k')"
    and get6_store4: "get6 (store4 k l t) k' = get6 t k'"
    and get6_store6: "get6 (store6 k m t) k' = (if k' = k then Some m else get6 t k')"
    and get4_store6: "get4 (store6 k m t) k' = get4 t k'"
begin

text \<open>Any interleaving of the two protocols' stores commutes.\<close>

lemma stores_commute:
  "get4 (store4 k l (store6 k' m t)) i = get4 (store6 k' m (store4 k l t)) i"
  "get6 (store4 k l (store6 k' m t)) i = get6 (store6 k' m (store4 k l t)) i"
  by (simp_all add: get4_store4 get6_store4 get6_store6 get4_store6)

lemma get4_fold:
  "get4 (fold (\<lambda>(k, l). store4 k l) xs t) i
     = (case map_of (rev xs) i of None \<Rightarrow> get4 t i | Some l \<Rightarrow> Some l)"
  by (induction xs arbitrary: t)
    (auto simp: get4_store4 map_add_def split: option.splits)

end

definition entry4 :: "leaseMap \<Rightarrow> clientID \<Rightarrow> v4Lease option" where
  "entry4 m i = (case m i of None \<Rightarrow> None | Some fl \<Rightarrow> V4 fl)"

definition entry6 :: "leaseMap \<Rightarrow> clientID \<Rightarrow> v6Lease option" where
  "entry6 m i = (case m i of None \<Rightarrow> None | Some fl \<Rightarrow> V6 fl)"

interpretation saved_leases: lease_table put_v4 put_v6 entry4 entry6
  by unfold_locales
    (auto simp: put_v4_def put_v6_def entry4_def entry6_def split: option.splits)

definition collect_leases :: "saved list \<Rightarrow> leaseMap" where
  "collect_leases evs = fold save_step evs Map.empty"

text \<open>The last lease of one protocol a client sent.\<close>

fun last4 :: "clientID \<Rightarrow> saved list \<Rightarrow> v4Lease option" where
  "last4 i [] = None"
| "last4 i (e # es) =
     (case last4 i es of
        Some l \<Rightarrow> Some l
      | None \<Rightarrow> (case e of Saved4 j l \<Rightarrow> if j = i then Some l else None | _ \<Rightarrow> None))"

fun last6 :: "clientID \<Rightarrow> saved list \<Rightarrow> v6Lease option" where
  "last6 i [] = None"
| "last6 i (e # es) =
     (case last6 i es of
        Some l \<Rightarrow> Some l
      | None \<Rightarrow> (case e of Saved6 j l \<Rightarrow> if j = i then Some l else None | _ \<Rightarrow> None))"

lemma fold_save_entry4:
  "entry4 (fold save_step evs m) i = (case last4 i evs of None \<Rightarrow> entry4 m i | Some l \<Rightarrow> Some l)"
proof (induction evs arbitrary: m)
  case (Cons e evs)
  then show ?case
    by (cases e) (auto simp: saved_leases.get4_store4 saved_leases.get4_store6 split: option.splits)
qed simp

lemma fold_save_entry6:
  "entry6 (fold save_step evs m) i = (case last6 i evs of None \<Rightarrow> entry6 m i | Some l \<Rightarrow> Some l)"
proof (induction evs arbitrary: m)
  case (Cons e evs)
  then show ?case
    by (cases e) (auto simp: saved_leases.get6_store6 saved_leases.get6_store4 split: option.splits)
qed simp

text \<open>
  C31: the table written to the lease file holds, for every client, exactly the last IPv4 and the
  last IPv6 lease the saver received for it, however the two kinds were interleaved.
\<close>

theorem saved_leases_are_last:
  "entry4 (collect_leases evs) i = last4 i evs \<and> entry6 (collect_leases evs) i = last6 i evs"
proof -
  have "entry4 Map.empty i = None" "entry6 Map.empty i = None"
    by (simp_all add: entry4_def entry6_def)
  then show ?thesis
    by (simp add: collect_leases_def fold_save_entry4 fold_save_entry6 split: option.splits)
qed

section \<open>Properties of the release message and of applying a lease\<close>

lemma foldl_add_option:
  assumes "appends_options A"
  shows "foldl (add_option A) m xs = m\<lparr>msg_opts := msg_opts m @ xs\<rparr>"
  using assms by (induction xs arbitrary: m) (auto simp: appends_options_def)

text \<open>
  a release (or renew) message carries the requested message type and, in this order, the
  client and server identifiers of the lease's reply, an elapsed time of zero and all the reply's
  IA_NA and IA_PD options.
\<close>

theorem release_message_contents:
  assumes "appends_options A" and "Genv6Release A l mt = Ok m"
  shows "msg_type m = mt
    \<and> msg_opts m = [nilable (get_one A (ReplyOptions l) OptionClientID),
                    nilable (get_one A (ReplyOptions l) OptionServerID), OptElapsedTime 0]
        @ get_all A (ReplyOptions l) OptionIANA @ get_all A (ReplyOptions l) OptionIAPD"
proof -
  from assms(2) obtain m0 where m0: "new_message A = Some m0"
    by (auto simp: Genv6Release_def split: option.splits)
  have e: "msg_opts m0 = []" "\<And>m x. add_option A m x = m\<lparr>msg_opts := msg_opts m @ [x]\<rparr>"
    using assms(1) m0 by (auto simp: appends_options_def)
  from assms(2) show ?thesis
    by (auto simp: Genv6Release_def Let_def m0 foldl_add_option [OF assms(1)] e)
qed

theorem release_message_contents_witness:
  "msg_type (the_ok (Genv6Release example_api
     \<lparr>MAC6 = [], ReplyOptions = [OptServerID (DUIDOther [1]), OptClientID (DUIDOther [2]), OptIANA [0] []],
      LeaseType = MTSolicit, VLANList6 = [], IDOptions6 = [], RelayIDOptions = []\<rparr> MTRelease))
   = MTRelease"
proof -
  let ?l = "\<lparr>MAC6 = [], ReplyOptions = [OptServerID (DUIDOther [1]), OptClientID (DUIDOther [2]), OptIANA [0] []],
      LeaseType = MTSolicit, VLANList6 = [], IDOptions6 = [], RelayIDOptions = []\<rparr>"
  have "Genv6Release example_api ?l MTRelease = Ok (the_ok (Genv6Release example_api ?l MTRelease))"
    by (simp add: Genv6Release_def example_api_def Let_def)
  from release_message_contents [OF example_appends this] show ?thesis by simp
qed

lemma v6_Apply_loop_del:
  "\<forall>a \<in> set as. ParseAddr N a \<Longrightarrow> v6_Apply_loop N False as = (map AddrDel as, Ok ())"
  by (induction as) auto

text \<open>
  applying a DHCPv6 lease puts at most one of its addresses on the interface, the first one,
  while removing it deletes every address that parses.
\<close>

theorem v6_apply_first_only:
  assumes "LinkByName N ifname" and "v6_addrStr A l = Ok (a # as)"
    and "\<forall>x \<in> set (a # as). ParseAddr N x"
  shows "v6_Apply A N l ifname True
           = ([AddrReplace a], if AddrReplace_ok N a then Ok () else Fail ReplaceFailed)
       \<and> v6_Apply A N l ifname False = (map AddrDel (a # as), Ok ())"
  using assms v6_Apply_loop_del [of "a # as" N] by (simp add: v6_Apply_def)

theorem v6_apply_first_only_witness:
  "fst (v6_Apply example_api
      \<lparr>LinkByName = (\<lambda>_. True), ParseAddr = (\<lambda>_. True), AddrReplace_ok = (\<lambda>_. True),
       AddrDel_ok = (\<lambda>_. True)\<rparr>
      \<lparr>MAC6 = [], ReplyOptions = [OptIANA [0] [V6Addr 5], OptIAPD [0] [(V6Addr 64, 64)]],
       LeaseType = MTSolicit, VLANList6 = [], IDOptions6 = [], RelayIDOptions = []\<rparr> ''eth1'' True)
   = [AddrReplace (Cidr6 (V6Addr 5) 128)]"
proof -
  let ?N = "\<lparr>LinkByName = (\<lambda>_. True), ParseAddr = (\<lambda>_. True), AddrReplace_ok = (\<lambda>_. True),
       AddrDel_ok = (\<lambda>_. True)\<rparr>"
  let ?l = "\<lparr>MAC6 = [], ReplyOptions = [OptIANA [0] [V6Addr 5], OptIAPD [0] [(V6Addr 64, 64)]],
       LeaseType = MTSolicit, VLANList6 = [], IDOptions6 = [], RelayIDOptions = []\<rparr>"
  have "v6_addrStr example_api ?l = Ok [Cidr6 (V6Addr 5) 128, Cidr6 (V6Addr 64) 64]"
    by (simp add: v6_addrStr_def example_api_def)
  from v6_apply_first_only [OF _ this, of ?N "''eth1''"] show ?thesis by simp
qed

end
