(* ===== verification/Messages.thy ===== *)
theory Messages
  imports Lease
begin

text \<open>
  The DHCPv6 messages the program builds itself (\<open>buildSolicit\<close>, \<open>NewRequestFromAdv\<close> of
  \<open>sched.go\<close>) and its check of a server's answer (\<open>checkResp\<close> in \<open>dialv6\<close>).
\<close>

section \<open>Solicit\<close>

definition getIAIDviaInt :: "32 word \<Rightarrow> bytes" where
  "getIAIDviaInt v = put_be_uint32 v"

text \<open>The modifiers of a solicit message, in the order they are applied.\<close>

definition solicit_mods :: "v6api \<Rightarrow> testSetup \<Rightarrow> clientConfig \<Rightarrow> (v6msg \<Rightarrow> v6msg) list" where
  "solicit_mods A setup ccfg =
     map (with_option A) (V6Options ccfg)
     @ (if NeedNA setup then [with_iaid A (getIAIDviaInt 0)] else [])
     @ (if NeedPD setup then [with_iapd A (getIAIDviaInt 1)] else [])"

text \<open>\<open>now\<close> is \<open>dhcpv6.GetTime()\<close>.\<close>

definition buildSolicit :: "v6api \<Rightarrow> int \<Rightarrow> testSetup \<Rightarrow> clientConfig \<Rightarrow> (msg_error, v6msg) gores" where
  "buildSolicit A now setup ccfg =
     (case new_message A of
        None \<Rightarrow> Fail NewMessageFailed
      | Some m \<Rightarrow>
          let m = m\<lparr>msg_type := MTSolicit\<rparr>;
              m = add_option A m (OptClientID (DUIDLLT now (Mac ccfg)));
              m = add_option A m
                    (OptRequestedOption [OptionDNSRecursiveNameServer, OptionDomainSearchList]);
              m = add_option A m (OptElapsedTime 0)
          in Ok (foldl (\<lambda>m md. md m) m (solicit_mods A setup ccfg)))"

section \<open>Request\<close>

datatype req_error =
  NilAdvertise | NotAdvertise | ReqNewMessageFailed | NoClientID | NoServerID

definition add_opt :: "v6api \<Rightarrow> v6opt option \<Rightarrow> v6msg \<Rightarrow> v6msg" where
  "add_opt A x m = (case x of None \<Rightarrow> m | Some o' \<Rightarrow> add_option A m o')"

definition NewRequestFromAdv :: "v6api \<Rightarrow> v6msg option \<Rightarrow> (v6msg \<Rightarrow> v6msg) list
    \<Rightarrow> (req_error, v6msg) gores" where
  "NewRequestFromAdv A adv_ptr modifiers =
     (case adv_ptr of
        None \<Rightarrow> Fail NilAdvertise
      | Some adv \<Rightarrow>
          if msg_type adv \<noteq> MTAdvertise then Fail NotAdvertise
          else case new_message A of
            None \<Rightarrow> Fail ReqNewMessageFailed
          | Some req \<Rightarrow>
              let req = req\<lparr>msg_type := MTRequest\<rparr> in
              (case get_one A (msg_opts adv) OptionClientID of
                 None \<Rightarrow> Fail NoClientID
               | Some cid \<Rightarrow>
                   let req = add_option A req cid in
                   (case get_one A (msg_opts adv) OptionServerID of
                      None \<Rightarrow> Fail NoServerID
                    | Some sid \<Rightarrow>
                        let req = add_option A req sid;
                            req = add_option A req (OptElapsedTime 0);
                            req = add_opt A (one_iana A (msg_opts adv)) req;
                            req = add_opt A (get_one A (msg_opts adv) OptionIAPD) req;
                            req = add_option A req (OptRequestedOption
                              [OptionDNSRecursiveNameServer, OptionDomainSearchList]);
                            req = add_opt A (get_one A (msg_opts adv) OptionVendorClass) req
                        in Ok (foldl (\<lambda>m md. md m) req modifiers))))"

section \<open>Checking an answer\<close>

datatype resp_error = NoIANAAddress | NoIAPDPrefix

fun iana_addresses :: "v6opt \<Rightarrow> netip list" where
  "iana_addresses (OptIANA i addrs) = addrs"
| "iana_addresses _ = []"

fun iapd_prefixes :: "v6opt \<Rightarrow> (netip \<times> nat) list" where
  "iapd_prefixes (OptIAPD i ps) = ps"
| "iapd_prefixes _ = []"

text \<open>
  \<open>msg.Options.OneIANA().Options\<close> dereferences the nil pointer when the message has no IA_NA.
\<close>

definition check_na :: "v6api \<Rightarrow> testSetup \<Rightarrow> v6msg \<Rightarrow> (resp_error, unit) gores" where
  "check_na A setup msg =
     (if NeedNA setup then
        case one_iana A (msg_opts msg) of
          None \<Rightarrow> Panic
        | Some na \<Rightarrow> if length (iana_addresses na) = 0 then Fail NoIANAAddress else Ok ()
      else Ok ())"

definition check_pd :: "v6api \<Rightarrow> testSetup \<Rightarrow> v6msg \<Rightarrow> (resp_error, unit) gores" where
  "check_pd A setup msg =
     (if NeedPD setup then
        case one_iapd A (msg_opts msg) of
          None \<Rightarrow> Panic
        | Some pd \<Rightarrow> if length (iapd_prefixes pd) = 0 then Fail NoIAPDPrefix else Ok ()
      else Ok ())"

definition checkResp :: "v6api \<Rightarrow> testSetup \<Rightarrow> v6msg \<Rightarrow> (resp_error, unit) gores" where
  "checkResp A setup msg = gbind (check_na A setup msg) (\<lambda>_. check_pd A setup msg)"

section \<open>Properties\<close>

text \<open>
  a request is built exactly from an advertise message that names its client and its server,
  and it carries, in this order, both identifiers, an elapsed time of zero, the offered IA_NA and
  IA_PD if there are any, the option request and the vendor class if there is one.
\<close>

theorem request_from_advertise:
  assumes "appends_options A" and "new_message A = Some m0"
  shows "NewRequestFromAdv A (Some adv) [] = Ok req \<longleftrightarrow>
     msg_type adv = MTAdvertise
     \<and> (\<exists>cid sid. get_one A (msg_opts adv) OptionClientID = Some cid
          \<and> get_one A (msg_opts adv) OptionServerID = Some sid
          \<and> req = m0\<lparr>msg_type := MTRequest, msg_opts :=
              [cid, sid, OptElapsedTime 0]
              @ case_option [] (\<lambda>x. [x]) (one_iana A (msg_opts adv))
              @ case_option [] (\<lambda>x. [x]) (get_one A (msg_opts adv) OptionIAPD)
              @ [OptRequestedOption [OptionDNSRecursiveNameServer, OptionDomainSearchList]]
              @ case_option [] (\<lambda>x. [x]) (get_one A (msg_opts adv) OptionVendorClass)\<rparr>)"
proof -
  have e: "msg_opts m0 = []" "\<And>m x. add_option A m x = m\<lparr>msg_opts := msg_opts m @ [x]\<rparr>"
    using assms by (auto simp: appends_options_def)
  show ?thesis
    by (cases "get_one A (msg_opts adv) OptionClientID"; cases "get_one A (msg_opts adv) OptionServerID")
      (auto simp: NewRequestFromAdv_def assms(2) Let_def e add_opt_def split: option.splits)
qed

definition example_advertise :: v6msg where
  "example_advertise = \<lparr>msg_type = MTAdvertise,
     msg_opts = [OptIANA [0, 0, 0, 0] [V6Addr 5], OptServerID (DUIDOther [1]), OptClientID (DUIDOther [2])]\<rparr>"

theorem request_from_advertise_witness:
  "NewRequestFromAdv example_api (Some example_advertise) []
     = Ok \<lparr>msg_type = MTRequest, msg_opts =
         [OptClientID (DUIDOther [2]), OptServerID (DUIDOther [1]), OptElapsedTime 0,
          OptIANA [0, 0, 0, 0] [V6Addr 5],
          OptRequestedOption [OptionDNSRecursiveNameServer, OptionDomainSearchList]]\<rparr>"
proof -
  have m: "new_message example_api = Some \<lparr>msg_type = MTNone, msg_opts = []\<rparr>"
    by (simp add: example_api_def)
  show ?thesis
    unfolding request_from_advertise [OF example_appends m]
    by (simp add: example_advertise_def example_api_def)
qed

text \<open>
  the check of a server's answer crashes the program when an address is wanted and the message
  has no IA_NA option, or the addresses are fine, a prefix is wanted and it has no IA_PD option;
  otherwise it accepts exactly the answers with an address and a prefix where they are wanted.
\<close>

theorem checkResp_outcomes:
  "(checkResp A setup msg = Panic \<longleftrightarrow>
      (NeedNA setup \<and> one_iana A (msg_opts msg) = None)
    \<or> (check_na A setup msg = Ok () \<and> NeedPD setup \<and> one_iapd A (msg_opts msg) = None))
   \<and> (checkResp A setup msg = Ok () \<longleftrightarrow>
      (if NeedNA setup
       then \<exists>na. one_iana A (msg_opts msg) = Some na \<and> iana_addresses na \<noteq> [] else True)
    \<and> (if NeedPD setup
       then \<exists>pd. one_iapd A (msg_opts msg) = Some pd \<and> iapd_prefixes pd \<noteq> [] else True))"
  by (auto simp: checkResp_def check_na_def check_pd_def gbind_eq_Ok gbind_eq_Panic
      split: if_splits option.splits)

text \<open>
  a solicit message has the solicit type when no modifier changes it and starts with the
  client's link-layer identifier, the option request and an elapsed time of zero.
\<close>

theorem solicit_message:
  assumes "appends_options A" and "new_message A = Some m0"
    and "\<forall>md \<in> set (solicit_mods A setup ccfg). \<forall>m. \<exists>xs. md m = m\<lparr>msg_opts := msg_opts m @ xs\<rparr>"
  shows "\<exists>m xs. buildSolicit A now setup ccfg = Ok m \<and> msg_type m = MTSolicit
     \<and> msg_opts m = [OptClientID (DUIDLLT now (Mac ccfg)),
          OptRequestedOption [OptionDNSRecursiveNameServer, OptionDomainSearchList],
          OptElapsedTime 0] @ xs"
proof -
  have e: "msg_opts m0 = []" "\<And>m x. add_option A m x = m\<lparr>msg_opts := msg_opts m @ [x]\<rparr>"
    using assms by (auto simp: appends_options_def)
  have mods: "\<exists>xs. foldl (\<lambda>m md. md m) m mds = m\<lparr>msg_opts := msg_opts m @ xs\<rparr>"
    if "\<forall>md \<in> set mds. \<forall>m. \<exists>xs. md m = m\<lparr>msg_opts := msg_opts m @ xs\<rparr>" for mds and m :: v6msg
    using that
  proof (induction mds arbitrary: m)
    case Nil
    have "m = m\<lparr>msg_opts := msg_opts m @ []\<rparr>" by simp
    then show ?case by (simp only: foldl.simps) blast
  next
    case (Cons md mds)
    from Cons.prems have "\<exists>xs. md m = m\<lparr>msg_opts := msg_opts m @ xs\<rparr>" by simp
    then obtain xs where xs: "md m = m\<lparr>msg_opts := msg_opts m @ xs\<rparr>" by blast
    from Cons obtain ys where "foldl (\<lambda>m md. md m) (md m) mds
        = (md m)\<lparr>msg_opts := msg_opts (md m) @ ys\<rparr>"
      by (metis list.set_intros(2))
    then show ?case by (intro exI [of _ "xs @ ys"]) (simp add: xs)
  qed
  show ?thesis
    unfolding buildSolicit_def assms(2) Let_def option.case e
    using mods [OF assms(3)] by (fastforce simp: e)
qed

theorem solicit_message_witness:
  "msg_type (the_ok (buildSolicit example_api 7 example_setup (hd example_clients))) = MTSolicit"
proof -
  have m: "new_message example_api = Some \<lparr>msg_type = MTNone, msg_opts = []\<rparr>"
    by (simp add: example_api_def)
  have "\<forall>md \<in> set (solicit_mods example_api example_setup (hd example_clients)).
      \<forall>m. \<exists>xs. md m = m\<lparr>msg_opts := msg_opts m @ xs\<rparr>"
    by (fastforce simp: solicit_mods_def example_api_def)
  from solicit_message [OF example_appends m this, of 7] show ?thesis by fastforce
qed

end
