(* ===== verification/Summary.thy ===== *)
theory Summary
  imports Conf
begin

text \<open>
  Results and their summary: \<open>execResult\<close> and \<open>resultSummary\<close> (\<open>dhcplt.go\<close>),
  \<open>dialResult\<close> and the collector \<open>collectResults\<close> (\<open>sched.go\<close>), which folds the
  results received from the channel into the summary.
\<close>

section \<open>Results\<close>

datatype execResult = resultSuccess | resultFailure | resultOther int

fun execResult_String :: "execResult \<Rightarrow> string" where
  "execResult_String resultSuccess = ''success''"
| "execResult_String resultFailure = ''failed''"
| "execResult_String (resultOther _) = ''unknow result''"

record dialResult =
  IsDHCPv6 :: bool
  action :: actionType
  ExecResult :: execResult
  L2EP :: string
  StartTime :: gotime
  FinishTime :: gotime

text \<open>
  The summary. \<open>AvgSuccessTime\<close> is a \<open>MovingAverage\<close> of a library: its type and its
  method \<open>Add\<close> are parameters.
\<close>

record 'mv resultSummary =
  Total :: int
  Success :: int
  Failed :: int
  Released :: int
  Renewed :: int
  Rebinded :: int
  LessThanSecond :: int
  Shortest :: int
  Longest :: int
  TotalTime :: int
  AvgSuccessTime :: 'mv

definition maxDuration :: int where "maxDuration = max_int64"

definition newResultSummary :: "'mv \<Rightarrow> 'mv resultSummary" where
  "newResultSummary avg =
     \<lparr>Total = 0, Success = 0, Failed = 0, Released = 0, Renewed = 0, Rebinded = 0,
      LessThanSecond = 0, Shortest = maxDuration, Longest = 0, TotalTime = 0,
      AvgSuccessTime = avg\<rparr>"

section \<open>The collector\<close>

text \<open>The collector's local variables next to the summary it updates.\<close>

record 'mv collector =
  summary :: "'mv resultSummary"
  beginTime :: gotime
  endTime :: gotime
  totalSuccessTime :: int

text \<open>\<open>far\<close> is ten years from now, where the begin time starts.\<close>

definition collector_init :: "'mv resultSummary \<Rightarrow> gotime \<Rightarrow> 'mv collector" where
  "collector_init s far =
     \<lparr>summary = s, beginTime = far, endTime = time_zero, totalSuccessTime = 0\<rparr>"

definition completeTime :: "dialResult \<Rightarrow> int" where
  "completeTime r =
     (let t = time_sub (FinishTime r) (StartTime r) in if t < 0 then 0 else t)"

definition count_action :: "actionType \<Rightarrow> 'mv resultSummary \<Rightarrow> 'mv resultSummary" where
  "count_action a s =
     (case a of
        actionRelease \<Rightarrow> s\<lparr>Released := Released s + 1\<rparr>
      | actionRebind \<Rightarrow> s\<lparr>Rebinded := Rebinded s + 1\<rparr>
      | actionRenew \<Rightarrow> s\<lparr>Renewed := Renewed s + 1\<rparr>
      | _ \<Rightarrow> s)"

definition count_success :: "('mv \<Rightarrow> int \<Rightarrow> 'mv) \<Rightarrow> int \<Rightarrow> 'mv resultSummary \<Rightarrow> 'mv resultSummary" where
  "count_success mv_add t s =
     (let s = s\<lparr>Success := Success s + 1, AvgSuccessTime := mv_add (AvgSuccessTime s) t\<rparr>;
          s = (if t < second then s\<lparr>LessThanSecond := LessThanSecond s + 1\<rparr> else s);
          s = (if t > Longest s then s\<lparr>Longest := t\<rparr> else s)
      in if t < Shortest s then s\<lparr>Shortest := t\<rparr> else s)"

definition count_exec :: "('mv \<Rightarrow> int \<Rightarrow> 'mv) \<Rightarrow> dialResult \<Rightarrow> 'mv resultSummary \<Rightarrow> 'mv resultSummary" where
  "count_exec mv_add r s =
     (case ExecResult r of
        resultFailure \<Rightarrow> s\<lparr>Failed := Failed s + 1\<rparr>
      | resultSuccess \<Rightarrow>
          if action r = actionDORA then count_success mv_add (completeTime r) s else s
      | resultOther _ \<Rightarrow> s)"

text \<open>One iteration of the loop over the channel.\<close>

definition collect_step :: "('mv \<Rightarrow> int \<Rightarrow> 'mv) \<Rightarrow> dialResult \<Rightarrow> 'mv collector \<Rightarrow> 'mv collector" where
  "collect_step mv_add r c =
     (let e = (if FinishTime r > endTime c then FinishTime r else endTime c);
          b = (if StartTime r < beginTime c then StartTime r else beginTime c);
          s = summary c;
          s = s\<lparr>Total := Total s + 1\<rparr>;
          s = count_exec mv_add r (count_action (action r) s);
          s = s\<lparr>TotalTime := time_sub e b\<rparr>;
          s = (if Shortest s = maxDuration then s\<lparr>Shortest := 0\<rparr> else s);
          tot = (if ExecResult r = resultSuccess \<and> action r = actionDORA
                 then wrap64 (totalSuccessTime c + completeTime r) else totalSuccessTime c)
      in \<lparr>summary = s, beginTime = b, endTime = e, totalSuccessTime = tot\<rparr>)"

definition collectResults :: "('mv \<Rightarrow> int \<Rightarrow> 'mv) \<Rightarrow> dialResult list \<Rightarrow> 'mv collector \<Rightarrow> 'mv collector" where
  "collectResults mv_add rs c = fold (collect_step mv_add) rs c"

section \<open>Interface: an order-independent tally\<close>

text \<open>
  The senders of results run concurrently, so the collector sees them in some order. What a
  client of the collector may rely on is a tally: an observation to which every absorbed result
  adds its own weight, in whatever order they come.
\<close>

locale tally =
  fixes absorb :: "'r \<Rightarrow> 's \<Rightarrow> 's"
    and obs :: "'s \<Rightarrow> 'm::comm_monoid_add"
    and weight :: "'r \<Rightarrow> 'm"
  assumes obs_absorb: "obs (absorb r s) = obs s + weight r"
begin

lemma obs_fold: "obs (fold absorb rs s) = obs s + sum_list (map weight rs)"
  by (induction rs arbitrary: s) (simp_all add: obs_absorb add.assoc)

lemma obs_fold_mset: "obs (fold absorb rs s) = obs s + sum_mset (image_mset weight (mset rs))"
  using obs_fold [of rs s] by (simp add: sum_mset_sum_list [symmetric])

lemma order_irrelevant:
  "mset rs = mset rs' \<Longrightarrow> obs (fold absorb rs s) = obs (fold absorb rs' s)"
  by (simp add: obs_fold_mset)

end

text \<open>The counters of a summary, as a commutative monoid.\<close>

datatype counts = Counts (n_total: int) (n_success: int) (n_failed: int) (n_released: int)
  (n_renewed: int) (n_rebinded: int) (n_fast: int)

instantiation counts :: comm_monoid_add
begin

definition zero_counts :: counts where "zero_counts = Counts 0 0 0 0 0 0 0"

fun plus_counts :: "counts \<Rightarrow> counts \<Rightarrow> counts" where
  "plus_counts (Counts a b c d e f g) (Counts a' b' c' d' e' f' g')
     = Counts (a + a') (b + b') (c + c') (d + d') (e + e') (f + f') (g + g')"

instance
proof
  fix x y z :: counts
  show "x + y + z = x + (y + z)" by (cases x; cases y; cases z) simp
  show "x + y = y + x" by (cases x; cases y) simp
  show "0 + x = x" by (cases x) (simp add: zero_counts_def)
qed

end

definition counts_of :: "'mv resultSummary \<Rightarrow> counts" where
  "counts_of s = Counts (Total s) (Success s) (Failed s) (Released s) (Renewed s) (Rebinded s)
     (LessThanSecond s)"

definition is_dial :: "dialResult \<Rightarrow> bool" where
  "is_dial r \<longleftrightarrow> ExecResult r = resultSuccess \<and> action r = actionDORA"

definition weight_of :: "dialResult \<Rightarrow> counts" where
  "weight_of r = Counts 1 (of_bool (is_dial r)) (of_bool (ExecResult r = resultFailure))
     (of_bool (action r = actionRelease)) (of_bool (action r = actionRenew))
     (of_bool (action r = actionRebind)) (of_bool (is_dial r \<and> completeTime r < second))"

lemma count_action_sel [simp]:
  "Total (count_action a s) = Total s" "Success (count_action a s) = Success s"
  "Failed (count_action a s) = Failed s" "LessThanSecond (count_action a s) = LessThanSecond s"
  "Shortest (count_action a s) = Shortest s" "Longest (count_action a s) = Longest s"
  "Released (count_action a s) = Released s + of_bool (a = actionRelease)"
  "Renewed (count_action a s) = Renewed s + of_bool (a = actionRenew)"
  "Rebinded (count_action a s) = Rebinded s + of_bool (a = actionRebind)"
  by (cases a; simp add: count_action_def)+

lemma count_exec_sel [simp]:
  "Total (count_exec f r s) = Total s" "Released (count_exec f r s) = Released s"
  "Renewed (count_exec f r s) = Renewed s" "Rebinded (count_exec f r s) = Rebinded s"
  "Success (count_exec f r s) = Success s + of_bool (is_dial r)"
  "Failed (count_exec f r s) = Failed s + of_bool (ExecResult r = resultFailure)"
  "LessThanSecond (count_exec f r s)
     = LessThanSecond s + of_bool (is_dial r \<and> completeTime r < second)"
  "Longest (count_exec f r s)
     = (if is_dial r then max (Longest s) (completeTime r) else Longest s)"
  "Shortest (count_exec f r s)
     = (if is_dial r then min (Shortest s) (completeTime r) else Shortest s)"
  by (cases "ExecResult r"; simp add: count_exec_def count_success_def is_dial_def Let_def)+

lemma collect_step_sel [simp]:
  "Longest (summary (collect_step f r c))
     = (if is_dial r then max (Longest (summary c)) (completeTime r) else Longest (summary c))"
  "endTime (collect_step f r c) = max (endTime c) (FinishTime r)"
  "beginTime (collect_step f r c) = min (beginTime c) (StartTime r)"
  "TotalTime (summary (collect_step f r c))
     = time_sub (max (endTime c) (FinishTime r)) (min (beginTime c) (StartTime r))"
  by (simp_all add: collect_step_def Let_def max_def min_def)

lemma collect_step_counts:
  "counts_of (summary (collect_step f r c)) = counts_of (summary c) + weight_of r"
  by (simp add: collect_step_def Let_def counts_of_def weight_of_def)

interpretation collector_tally:
  tally "collect_step mv_add" "\<lambda>c. counts_of (summary c)" weight_of
  by unfold_locales (rule collect_step_counts)

text \<open>A result with the given times, for the witnesses.\<close>

definition mk_result :: "actionType \<Rightarrow> execResult \<Rightarrow> gotime \<Rightarrow> gotime \<Rightarrow> dialResult" where
  "mk_result a e t0 t1 =
     \<lparr>IsDHCPv6 = False, action = a, ExecResult = e, L2EP = ''c0'', StartTime = t0, FinishTime = t1\<rparr>"

lemma mk_result_sel [simp]:
  "action (mk_result a e t0 t1) = a" "ExecResult (mk_result a e t0 t1) = e"
  "StartTime (mk_result a e t0 t1) = t0" "FinishTime (mk_result a e t0 t1) = t1"
  "is_dial (mk_result a e t0 t1) \<longleftrightarrow> e = resultSuccess \<and> a = actionDORA"
  by (simp_all add: mk_result_def is_dial_def)

lemma mk_result_completeTime [simp]:
  "completeTime (mk_result a e t0 t1) = (let t = time_sub t1 t0 in if t < 0 then 0 else t)"
  by (simp add: completeTime_def)

section \<open>Counters\<close>

definition start_collector :: "'mv \<Rightarrow> gotime \<Rightarrow> 'mv collector" where
  "start_collector avg far = collector_init (newResultSummary avg) far"

lemma start_collector_sel [simp]:
  "counts_of (summary (start_collector avg far)) = 0"
  "Longest (summary (start_collector avg far)) = 0"
  "Shortest (summary (start_collector avg far)) = maxDuration"
  "endTime (start_collector avg far) = time_zero" "beginTime (start_collector avg far) = far"
  by (simp_all add: start_collector_def collector_init_def newResultSummary_def counts_of_def
      zero_counts_def)

lemma sum_weights:
  "sum_list (map weight_of rs) =
     Counts (int (length rs)) (int (length (filter is_dial rs)))
       (int (length (filter (\<lambda>r. ExecResult r = resultFailure) rs)))
       (int (length (filter (\<lambda>r. action r = actionRelease) rs)))
       (int (length (filter (\<lambda>r. action r = actionRenew) rs)))
       (int (length (filter (\<lambda>r. action r = actionRebind) rs)))
       (int (length (filter (\<lambda>r. is_dial r \<and> completeTime r < second) rs)))"
  by (induction rs) (simp_all add: zero_counts_def weight_of_def)

lemma collected_counts:
  "counts_of (summary (collectResults f rs (start_collector avg far))) = sum_list (map weight_of rs)"
  using collector_tally.obs_fold [of f rs] by (simp add: collectResults_def)

lemma collected_numbers:
  "Total (summary (collectResults f rs (start_collector avg far))) = int (length rs)"
  "Success (summary (collectResults f rs (start_collector avg far))) = int (length (filter is_dial rs))"
  "Failed (summary (collectResults f rs (start_collector avg far)))
     = int (length (filter (\<lambda>r. ExecResult r = resultFailure) rs))"
  using collected_counts [of f rs avg far]
  unfolding sum_weights counts_of_def counts.inject by blast+

text \<open>
  C37: after the collector has seen the results \<open>rs\<close>, its counters are: all of them, the
  successful dials, the failures, the results of each other action (failed ones included) and the
  dials done within a second.
\<close>

theorem summary_counts:
  "let s = summary (collectResults f rs (start_collector avg far)) in
     Total s = int (length rs)
   \<and> Success s = int (length (filter is_dial rs))
   \<and> Failed s = int (length (filter (\<lambda>r. ExecResult r = resultFailure) rs))
   \<and> Released s = int (length (filter (\<lambda>r. action r = actionRelease) rs))
   \<and> Renewed s = int (length (filter (\<lambda>r. action r = actionRenew) rs))
   \<and> Rebinded s = int (length (filter (\<lambda>r. action r = actionRebind) rs))
   \<and> LessThanSecond s = int (length (filter (\<lambda>r. is_dial r \<and> completeTime r < second) rs))"
  using collected_counts [of f rs avg far]
  unfolding Let_def sum_weights counts_of_def counts.inject by blast

text \<open>
  the counters called \<open>Success release\<close>, \<open>Success renew\<close> and \<open>Success rebind\<close>
  in the printed summary include failed transactions: whenever a release fails, there is a
  transaction counted both as released and as failed.
\<close>

theorem released_counts_failures:
  assumes "r \<in> set rs" and "action r = actionRelease" and "ExecResult r = resultFailure"
  shows "let s = summary (collectResults f rs (start_collector avg far)) in
     Released s > int (length (filter (\<lambda>r. action r = actionRelease \<and> ExecResult r = resultSuccess) rs))
   \<and> Failed s > 0"
proof -
  let ?c = "counts_of (summary (collectResults f rs (start_collector avg far)))"
  have e: "?c = sum_list (map weight_of rs)" by (rule collected_counts)
  have sub: "length (filter (\<lambda>r. action r = actionRelease \<and> ExecResult r = resultSuccess) rs)
      < length (filter (\<lambda>r. action r = actionRelease) rs)"
    using assms
  proof (induction rs)
    case (Cons x xs)
    have "length (filter (\<lambda>r. action r = actionRelease \<and> ExecResult r = resultSuccess) xs)
        \<le> length (filter (\<lambda>r. action r = actionRelease) xs)"
      by (induction xs) auto
    with Cons show ?case by auto
  qed simp
  have "filter (\<lambda>r. ExecResult r = resultFailure) rs \<noteq> []" using assms by (auto simp: filter_empty_conv)
  with e sub show ?thesis
    unfolding Let_def sum_weights counts_of_def counts.inject by simp
qed

theorem released_counts_failures_witness:
  "Failed (summary (collectResults (\<lambda>a t. a) [mk_result actionRelease resultFailure 1 2]
     (start_collector () 99))) > 0"
  using released_counts_failures [of "mk_result actionRelease resultFailure 1 2"
      "[mk_result actionRelease resultFailure 1 2]" "\<lambda>a t. a" "()" 99]
  by (simp add: Let_def)

section \<open>Times\<close>

lemma collect_endTime:
  "endTime (collectResults f rs c) = fold (\<lambda>r e. max e (FinishTime r)) rs (endTime c)"
  unfolding collectResults_def by (induction rs arbitrary: c) simp_all

lemma collect_beginTime:
  "beginTime (collectResults f rs c) = fold (\<lambda>r b. min b (StartTime r)) rs (beginTime c)"
  unfolding collectResults_def by (induction rs arbitrary: c) simp_all

lemma collect_Longest:
  "Longest (summary (collectResults f rs c))
     = fold (\<lambda>r m. if is_dial r then max m (completeTime r) else m) rs (Longest (summary c))"
  unfolding collectResults_def by (induction rs arbitrary: c) simp_all

lemma collect_TotalTime:
  "rs \<noteq> [] \<Longrightarrow> TotalTime (summary (collectResults f rs c))
     = time_sub (endTime (collectResults f rs c)) (beginTime (collectResults f rs c))"
  unfolding collectResults_def by (cases rs rule: rev_cases) simp_all

lemma fold_max_Max: "fold (\<lambda>r e. max e (g r)) rs (m :: int) = Max (insert m (g ` set rs))"
proof (induction rs arbitrary: m)
  case (Cons r rs)
  have "Max (insert (max m (g r)) (g ` set rs)) = Max (insert m (insert (g r) (g ` set rs)))"
    by (cases "set rs = {}") (simp_all add: max.assoc)
  with Cons show ?case by simp
qed simp

lemma fold_min_Min: "fold (\<lambda>r e. min e (g r)) rs (m :: int) = Min (insert m (g ` set rs))"
proof (induction rs arbitrary: m)
  case (Cons r rs)
  have "Min (insert (min m (g r)) (g ` set rs)) = Min (insert m (insert (g r) (g ` set rs)))"
    by (cases "set rs = {}") (simp_all add: min.assoc)
  with Cons show ?case by simp
qed simp

lemma fold_dials:
  "fold (\<lambda>r m. if is_dial r then max m (completeTime r) else m) rs m
     = fold (\<lambda>r m. max m (completeTime r)) (filter is_dial rs) m"
  by (induction rs arbitrary: m) simp_all

lemma completeTime_nonneg: "0 \<le> completeTime r"
  by (simp add: completeTime_def Let_def)

lemma completeTime_le: "completeTime r \<le> maxDuration"
  using time_sub_le [of "FinishTime r" "StartTime r"]
  by (auto simp: completeTime_def Let_def maxDuration_def max_int64_def)

text \<open>
  the total time is the span from the earliest start to the latest finish, and the slowest
  dial is the longest of the successful dials (zero when there is none), in whatever order the
  results arrived.
\<close>

theorem summary_times:
  assumes "rs \<noteq> []" and "\<forall>r \<in> set rs. StartTime r \<le> far \<and> time_zero \<le> FinishTime r"
  shows "let s = summary (collectResults f rs (start_collector avg far)) in
      TotalTime s = time_sub (Max (FinishTime ` set rs)) (Min (StartTime ` set rs))
    \<and> Longest s = Max (insert 0 (completeTime ` {r \<in> set rs. is_dial r}))"
proof -
  obtain r where r: "r \<in> set rs" using assms(1) by (cases rs) auto
  have ne: "FinishTime ` set rs \<noteq> {}" "StartTime ` set rs \<noteq> {}" using r by auto
  have "time_zero \<le> Max (FinishTime ` set rs)"
    by (rule order_trans [of _ "FinishTime r"]) (use assms(2) r in simp_all)
  then have e: "Max (insert time_zero (FinishTime ` set rs)) = Max (FinishTime ` set rs)"
    using ne by (simp add: Max_insert max_absorb2)
  have "Min (StartTime ` set rs) \<le> far"
    by (rule order_trans [of _ "StartTime r"]) (use assms(2) r in simp_all)
  then have b: "Min (insert far (StartTime ` set rs)) = Min (StartTime ` set rs)"
    using ne by (simp add: Min_insert min_absorb2)
  show ?thesis
    unfolding Let_def collect_TotalTime [OF assms(1)] collect_endTime collect_beginTime
      collect_Longest fold_dials fold_max_Max fold_min_Min
    by (simp add: e b Collect_conj_eq [symmetric])
qed

theorem summary_times_witness:
  "TotalTime (summary (collectResults (\<lambda>a t. a)
      [mk_result actionDORA resultSuccess 4 9, mk_result actionDORA resultFailure 3 7]
      (start_collector () 99))) = 6"
  using summary_times [of
      "[mk_result actionDORA resultSuccess 4 9, mk_result actionDORA resultFailure 3 7]"
      99 "\<lambda>a t. a" "()"]
  by (simp add: Let_def time_zero_def time_sub_def min_int64_def max_int64_def)

text \<open>
  the counters, the slowest dial and the total time do not depend on the order in which the
  concurrent clients' results reach the collector.
\<close>

theorem summary_order_independent:
  assumes "mset rs = mset rs'"
  shows "counts_of (summary (collectResults f rs c)) = counts_of (summary (collectResults f rs' c))
    \<and> Longest (summary (collectResults f rs c)) = Longest (summary (collectResults f rs' c))
    \<and> TotalTime (summary (collectResults f rs c)) = TotalTime (summary (collectResults f rs' c))"
proof -
  have l: "set rs = set rs'" "rs = [] \<longleftrightarrow> rs' = []" "set (filter is_dial rs) = set (filter is_dial rs')"
    using assms mset_eq_setD [OF assms] by auto
  have "TotalTime (summary (collectResults f rs c)) = TotalTime (summary (collectResults f rs' c))"
  proof (cases "rs = []")
    case False
    with l show ?thesis
      by (simp add: collect_TotalTime collect_endTime collect_beginTime fold_max_Max fold_min_Min)
  qed (use l in simp)
  then show ?thesis
    using collector_tally.order_irrelevant [OF assms, of f c] l(3)
    by (simp add: collectResults_def [symmetric] collect_Longest fold_dials fold_max_Max)
qed

theorem summary_order_independent_witness:
  "Longest (summary (collectResults (\<lambda>a t. a)
      [mk_result actionDORA resultSuccess 4 9, mk_result actionDORA resultFailure 3 7] (start_collector () 99)))
   = Longest (summary (collectResults (\<lambda>a t. a)
      [mk_result actionDORA resultFailure 3 7, mk_result actionDORA resultSuccess 4 9] (start_collector () 99)))"
  by (rule summary_order_independent [THEN conjunct2, THEN conjunct1]) simp

section \<open>The fastest dial\<close>

lemma collect_step_Shortest:
  "Shortest (summary (collect_step f r c)) =
     (let m = (if is_dial r then min (Shortest (summary c)) (completeTime r)
               else Shortest (summary c))
      in if m = maxDuration then 0 else m)"
  by (simp add: collect_step_def Let_def)

lemma Shortest_zero_stays:
  "Shortest (summary c) = 0 \<Longrightarrow> Shortest (summary (collectResults f rs c)) = 0"
  unfolding collectResults_def
  by (induction rs arbitrary: c)
    (simp_all add: collect_step_Shortest Let_def completeTime_nonneg maxDuration_def max_int64_def)

lemma Shortest_min:
  assumes "Shortest (summary c) < maxDuration"
  shows "Shortest (summary (collectResults f rs c))
     = fold (\<lambda>r m. min m (completeTime r)) (filter is_dial rs) (Shortest (summary c))"
  using assms
proof (induction rs arbitrary: c)
  case Nil
  then show ?case by (simp add: collectResults_def)
next
  case (Cons r rs)
  have s: "Shortest (summary (collect_step f r c))
      = (if is_dial r then min (Shortest (summary c)) (completeTime r) else Shortest (summary c))"
    using Cons.prems by (auto simp: collect_step_Shortest Let_def min_def)
  then have "Shortest (summary (collect_step f r c)) < maxDuration" using Cons.prems by auto
  from Cons.IH [OF this] s show ?case by (simp add: collectResults_def)
qed

text \<open>
  the fastest dial is the minimum over the successful dials when the very first result
  received is a successful dial (of less than the largest duration) \<dots>
\<close>

theorem fastest_dial_first_success:
  assumes "is_dial r" and "completeTime r < maxDuration"
  shows "Shortest (summary (collectResults f (r # rs) (start_collector avg far)))
     = Min (completeTime ` {x \<in> set (r # rs). is_dial x})"
proof -
  let ?c = "collect_step f r (start_collector avg far)"
  have s: "Shortest (summary ?c) = completeTime r"
    using assms completeTime_le [of r] by (simp add: collect_step_Shortest Let_def min_def)
  have "Shortest (summary (collectResults f rs ?c))
      = Min (insert (completeTime r) (completeTime ` {x \<in> set rs. is_dial x}))"
    using Shortest_min [of ?c f rs] s assms(2) by (simp add: fold_min_Min)
  moreover have "{x \<in> set (r # rs). is_dial x} = insert r {x \<in> set rs. is_dial x}"
    using assms(1) by auto
  ultimately show ?thesis by (simp add: collectResults_def)
qed

theorem fastest_dial_first_success_witness:
  "Shortest (summary (collectResults (\<lambda>a t. a)
      [mk_result actionDORA resultSuccess 4 9, mk_result actionDORA resultFailure 3 7]
      (start_collector () 99))) = 5"
proof -
  have "{x. (x = mk_result actionDORA resultSuccess 4 9 \<or> x = mk_result actionDORA resultFailure 3 7)
        \<and> is_dial x} = {mk_result actionDORA resultSuccess 4 9}"
    by auto
  then show ?thesis
    using fastest_dial_first_success [of "mk_result actionDORA resultSuccess 4 9" "\<lambda>a t. a"
        "[mk_result actionDORA resultFailure 3 7]" "()" 99]
    by (simp add: time_sub_def min_int64_def max_int64_def maxDuration_def)
qed

text \<open>
  \<dots> and it is zero, for good, when the first result received is anything else: the
  collector then replaces the initial value by zero and no later dial is faster than that.
\<close>

theorem fastest_dial_stuck_at_zero:
  assumes "\<not> is_dial r"
  shows "Shortest (summary (collectResults f (r # rs) (start_collector avg far))) = 0"
proof -
  have "Shortest (summary (collect_step f r (start_collector avg far))) = 0"
    using assms by (simp add: collect_step_Shortest)
  from Shortest_zero_stays [OF this, of f rs] show ?thesis by (simp add: collectResults_def)
qed

theorem fastest_dial_stuck_at_zero_witness:
  "Shortest (summary (collectResults (\<lambda>a t. a)
      [mk_result actionDORA resultFailure 3 7, mk_result actionDORA resultSuccess 4 9]
      (start_collector () 99))) = 0"
  by (rule fastest_dial_stuck_at_zero) simp

end
