(* ===== verification/ClientId.thy ===== *)
theory ClientId
  imports ClientGen
begin

text \<open>
  Client identifiers (\<open>lease.go\<close>): \<open>getClientIDFromL2Key\<close> prints the MAC address and
  the VLAN identifiers of an \<open>etherconn\<close> endpoint key. The identifier keys the scheduler's
  client table and the saved leases, so it has to tell two endpoints apart, and to be the same
  for the IPv4 and the IPv6 endpoint of one client.
\<close>

text \<open>
  \<open>etherconn\<close>'s layout of a key, as the code reads it: six bytes of MAC address, the VLAN
  identifiers in two bytes each, the EtherType in the last two. Its constants
  \<open>L2EndpointKeySize\<close> and \<open>NOVLANTAG\<close> are parameters.
\<close>

record key_const =
  L2EndpointKeySize :: nat
  NOVLANTAG :: uint16

text \<open>
  The loop over the identifiers: \<open>for i := 6; i+2 <= L2EndpointKeySize-2; i += 2\<close>. Reading
  past the key (a key of another size) is a panic.
\<close>

function id_loop :: "key_const \<Rightarrow> bytes \<Rightarrow> nat \<Rightarrow> (unit, string) gores" where
  "id_loop K key i =
     (if i + 2 \<le> L2EndpointKeySize K - 2 then
        if i + 2 \<le> length key then
          let vid = be_uint16 (key ! i) (key ! (i + 1))
          in gbind (id_loop K key (i + 2)) (\<lambda>r.
               Ok ((if vid \<noteq> NOVLANTAG K then CHR ''|'' # itoa (uint vid) else []) @ r))
        else Panic
      else Ok [])"
  by pat_completeness auto
termination
  by (relation "measure (\<lambda>(K, key, i). L2EndpointKeySize K - i)") auto

declare id_loop.simps [simp del]

definition getClientIDFromL2Key :: "key_const \<Rightarrow> bytes \<Rightarrow> (unit, string) gores" where
  "getClientIDFromL2Key K key =
     (if length key < 6 then Panic
      else gbind (id_loop K key 6) (\<lambda>r. Ok (hwaddr_string (take 6 key) @ r)))"

section \<open>What the identifier says\<close>

text \<open>The VLAN identifiers of a key that are set, in order, and how they are printed.\<close>

fun pairs :: "bytes \<Rightarrow> uint16 list" where
  "pairs (a # b # bs) = be_uint16 a b # pairs bs"
| "pairs _ = []"

definition key_vids :: "key_const \<Rightarrow> bytes \<Rightarrow> uint16 list" where
  "key_vids K key =
     filter (\<lambda>v. v \<noteq> NOVLANTAG K) (pairs (take (L2EndpointKeySize K - 8) (drop 6 key)))"

fun vids_string :: "uint16 list \<Rightarrow> string" where
  "vids_string [] = []"
| "vids_string (v # vs) = CHR ''|'' # itoa (uint v) @ vids_string vs"

definition key_ok :: "key_const \<Rightarrow> bytes \<Rightarrow> bool" where
  "key_ok K key \<longleftrightarrow> length key = L2EndpointKeySize K \<and> 8 \<le> L2EndpointKeySize K"

lemma id_loop_vids:
  assumes "length key = L2EndpointKeySize K" and "6 \<le> i" and "8 \<le> L2EndpointKeySize K"
  shows "id_loop K key i = Ok (vids_string (filter (\<lambda>v. v \<noteq> NOVLANTAG K)
           (pairs (take (L2EndpointKeySize K - 2 - i) (drop i key)))))"
  using assms
proof (induction K key i rule: id_loop.induct)
  case (1 K key i)
  show ?case
  proof (cases "i + 2 \<le> L2EndpointKeySize K - 2")
    case False
    then have "L2EndpointKeySize K - 2 - i \<le> 1" by simp
    then have "pairs (take (L2EndpointKeySize K - 2 - i) (drop i key)) = []"
      by (cases "drop i key"; cases "L2EndpointKeySize K - 2 - i") auto
    with False show ?thesis by (subst id_loop.simps) simp
  next
    case True
    have len: "i + 2 \<le> length key" using True "1.prems" by simp
    define n where "n = L2EndpointKeySize K - 2 - (i + 2)"
    have n: "L2EndpointKeySize K - 2 - i = Suc (Suc n)" using True by (simp add: n_def)
    have "drop i key = key ! i # key ! (i + 1) # drop (i + 2) key"
      using len by (simp add: Cons_nth_drop_Suc)
    then have p: "pairs (take (L2EndpointKeySize K - 2 - i) (drop i key))
        = be_uint16 (key ! i) (key ! (i + 1)) # pairs (take n (drop (i + 2) key))"
      by (simp only: n) simp
    have ih: "id_loop K key (i + 2) = Ok (vids_string (filter (\<lambda>v. v \<noteq> NOVLANTAG K)
        (pairs (take n (drop (i + 2) key)))))"
      using "1.IH" [OF True len refl] "1.prems" unfolding n_def by simp
    show ?thesis
      by (subst id_loop.simps) (simp only: True len if_True Let_def ih gbind.simps p, simp)
  qed
qed

lemma client_id_eq:
  assumes "key_ok K key"
  shows "getClientIDFromL2Key K key = Ok (hwaddr_string (take 6 key) @ vids_string (key_vids K key))"
  using assms id_loop_vids [of key K 6]
  by (simp add: getClientIDFromL2Key_def key_vids_def key_ok_def)

text \<open>The printed identifiers can be read back: a bar never occurs in a number.\<close>

lemma bar_notin_itoa: "CHR ''|'' \<notin> set (itoa i)"
  using not_digit_sign(4) by (auto simp: itoa_def dest: itoa_nat_digits)

lemma vids_string_hd: "vids_string vs = [] \<or> hd (vids_string vs) = CHR ''|''"
  by (cases vs) auto

lemma vids_string_inj: "vids_string xs = vids_string ys \<Longrightarrow> xs = ys"
proof (induction xs arbitrary: ys)
  case Nil
  then show ?case by (cases ys) auto
next
  case (Cons x xs)
  then obtain y ys' where ys: "ys = y # ys'" by (cases ys) auto
  have split: "takeWhile (\<lambda>c. c \<noteq> CHR ''|'') (itoa i @ vids_string vs) = itoa i" for i vs
  proof -
    have "takeWhile (\<lambda>c. c \<noteq> CHR ''|'') (itoa i @ vids_string vs)
        = itoa i @ takeWhile (\<lambda>c. c \<noteq> CHR ''|'') (vids_string vs)"
      using bar_notin_itoa [of i] by (intro takeWhile_append2) auto
    then show ?thesis using vids_string_hd [of vs] by (cases "vids_string vs") auto
  qed
  from Cons.prems ys have e: "itoa (uint x) @ vids_string xs = itoa (uint y) @ vids_string ys'"
    by simp
  then have "itoa (uint x) = itoa (uint y)" by (metis split)
  with e have "uint x = uint y" "vids_string xs = vids_string ys'" by (auto dest: itoa_inj)
  with Cons.IH ys show ?case by (simp add: word_uint_eq_iff)
qed

lemma client_id_inj:
  assumes "key_ok K key" "key_ok K key'"
    and "getClientIDFromL2Key K key = getClientIDFromL2Key K key'"
  shows "take 6 key = take 6 key' \<and> key_vids K key = key_vids K key'"
proof -
  have "hwaddr_string (take 6 key) @ vids_string (key_vids K key)
      = hwaddr_string (take 6 key') @ vids_string (key_vids K key')"
    using assms by (simp add: client_id_eq)
  moreover have "length (take 6 key) = length (take 6 key')"
    using assms(1,2) by (simp add: key_ok_def)
  ultimately show ?thesis using hwaddr_string_inj vids_string_inj by metis
qed

lemma client_id_iff:
  assumes "key_ok K key" and "key_ok K key'"
  shows "getClientIDFromL2Key K key = getClientIDFromL2Key K key' \<longleftrightarrow>
      take 6 key = take 6 key' \<and> key_vids K key = key_vids K key'"
  using assms client_id_inj client_id_eq by metis

text \<open>
  C33: the identifier of an endpoint tells its MAC address and its VLAN identifiers: two keys have
  the same identifier exactly when these agree, whatever their EtherTypes.
\<close>

theorem client_id_faithful:
  assumes "key_ok K key" and "key_ok K key'"
  shows "getClientIDFromL2Key K key = getClientIDFromL2Key K key' \<longleftrightarrow>
      take 6 key = take 6 key' \<and> key_vids K key = key_vids K key'"
  using assms by (rule client_id_iff)

text \<open>The constants of \<open>etherconn\<close> for two VLAN tags, for the witnesses.\<close>

definition example_key_const :: key_const where
  "example_key_const = \<lparr>L2EndpointKeySize = 12, NOVLANTAG = 0xFFFF\<rparr>"

text \<open>
  the identifier does not depend on the EtherType: a key whose last two bytes are replaced has
  the same identifier, so the IPv4 and the IPv6 connection of a client share theirs.
\<close>

theorem client_id_etype:
  assumes "key_ok K (p @ [a, b])"
  shows "getClientIDFromL2Key K (p @ [a, b]) = getClientIDFromL2Key K (p @ [c, d])"
proof -
  have k: "key_ok K (p @ [c, d])" "length p = L2EndpointKeySize K - 2" "6 \<le> length p"
    using assms by (auto simp: key_ok_def)
  have "take (L2EndpointKeySize K - 8) (drop 6 (p @ [a, b]))
      = take (L2EndpointKeySize K - 8) (drop 6 (p @ [c, d]))"
    unfolding k(2) [symmetric] drop_append take_append using k(2) by simp
  then have "key_vids K (p @ [a, b]) = key_vids K (p @ [c, d])"
    by (simp only: key_vids_def)
  moreover have "take 6 (p @ [a, b]) = take 6 (p @ [c, d])" using k(3) by simp
  ultimately show ?thesis using client_id_iff [OF assms k(1)] by blast
qed

theorem client_id_faithful_witness:
  "getClientIDFromL2Key example_key_const [2, 0, 0, 0, 0, 1, 0, 100, 255, 255, 8, 0]
     \<noteq> getClientIDFromL2Key example_key_const [2, 0, 0, 0, 0, 1, 0, 101, 255, 255, 8, 0]
   \<and> getClientIDFromL2Key example_key_const [2, 0, 0, 0, 0, 171, 0, 100, 0, 7, 8, 0]
     = Ok ''02:00:00:00:00:ab|100|7''"
proof -
  have v: "key_vids example_key_const [2, 0, 0, 0, 0, 1, 0, 100, 255, 255, 8, 0]
      \<noteq> key_vids example_key_const [2, 0, 0, 0, 0, 1, 0, 101, 255, 255, 8, 0]"
    by (simp add: key_vids_def example_key_const_def be_uint16_def)
  have k: "key_ok example_key_const [2, 0, 0, 0, 0, 1, 0, 100, 255, 255, 8, 0]"
    "key_ok example_key_const [2, 0, 0, 0, 0, 1, 0, 101, 255, 255, 8, 0]"
    by code_simp+
  have "getClientIDFromL2Key example_key_const [2, 0, 0, 0, 0, 171, 0, 100, 0, 7, 8, 0]
     = Ok ''02:00:00:00:00:ab|100|7''"
    by code_simp
  with v client_id_faithful [OF k] show ?thesis by simp
qed

theorem client_id_etype_witness:
  "getClientIDFromL2Key example_key_const [2, 0, 0, 0, 0, 1, 0, 100, 255, 255, 8, 0]
     = getClientIDFromL2Key example_key_const [2, 0, 0, 0, 0, 1, 0, 100, 255, 255, 134, 221]"
proof -
  have "key_ok example_key_const ([2, 0, 0, 0, 0, 1, 0, 100, 255, 255] @ [8, 0])" by code_simp
  from client_id_etype [OF this, of 134 221] show ?thesis by simp
qed

end
