(* ===== verification/Dial.thy ===== *)
theory Dial
  imports Messages Summary ClientId
begin

text \<open>
  The transactions of one client (\<open>sched.go\<close>): \<open>dialv4\<close>, \<open>dialv6\<close>,
  \<open>renewOrRebindv4\<close>, \<open>releasev4\<close> and \<open>releaseOrRenewV6\<close>. Each is a function
  of the client and of what the libraries answer; it returns the client afterwards, the list of
  its effects in the order the code has them, the deferred ones included, and its outcome.
\<close>

section \<open>DHCP clients and connections\<close>

text \<open>
  The objects made by \<open>etherconn.NewRUDPConn\<close>, \<open>nclient4.NewWithConn\<close>,
  \<open>nclient6.NewWithConn\<close> and \<open>dhcpv6relay.NewRelayAgent\<close>, by the arguments they are
  made with. A local address is the address and port whose text the code passes.
\<close>

datatype localaddr = AddrPort netip int

record rudpconn =
  ru_local :: localaddr
  ru_econn :: "econn option"
  ru_acceptAny :: bool

datatype clientopt4 =
    WithRetry int | WithTimeout int | WithDebugLogger | WithHWAddr bytes | WithServerAddr netip int

record client4 =
  c4_conn :: rudpconn
  c4_hw :: bytes
  c4_opts :: "clientopt4 list"

datatype conn6 = DirectConn rudpconn | PairConn

datatype clientopt6 = WithDebugLogger6 | WithLogDroppedPackets

record client6 =
  c6_conn :: conn6
  c6_hw :: bytes
  c6_opts :: "clientopt6 list"

record relayagent =
  ra_network :: rudpconn
  ra_linkAddr :: netip
  ra_peerAddr :: netip
  ra_options :: "v6opt list"

text \<open>\<open>DClient\<close>; the setup its configuration points to is shared, and an argument below.\<close>

record DClient =
  d4 :: "client4 option"
  d6 :: "client6 option"
  d4OtherClnt :: "client4 option"
  d6OtherClnt :: "client6 option"
  d6relay :: "relayagent option"
  d4Lease :: "v4Lease option"
  d6Lease :: "v6Lease option"
  cfg :: clientConfig
  dc_id :: clientID

section \<open>The surroundings of a transaction\<close>

datatype mod4 = WithOption4 v4opt | WithGatewayIP "netip option" | WithRelay "netip option"

text \<open>
  The libraries and the machine: the functions of the DHCP libraries, the kernel interface, the
  bytes of an endpoint's key, the outcome of each exchange with a server (\<open>None\<close> or
  \<open>False\<close> is an error; the number tells the exchanges of one transaction apart), the
  readings of the clock and \<open>dhcpv6.GetTime()\<close>.
\<close>

record world =
  w_v4 :: v4api
  w_v6 :: v6api
  w_netlink :: netlink
  w_key_const :: key_const
  w_key :: "econn \<Rightarrow> bytes"
  Request4 :: "client4 \<Rightarrow> mod4 list \<Rightarrow> myDHCPv4Lease option"
  Renew4 :: "client4 \<Rightarrow> myDHCPv4Lease \<Rightarrow> mod4 list \<Rightarrow> bool"
  Release4 :: "nat \<Rightarrow> client4 \<Rightarrow> myDHCPv4Lease \<Rightarrow> mod4 list \<Rightarrow> bool"
  SendAndRead :: "nat \<Rightarrow> client6 \<Rightarrow> v6msg \<Rightarrow> mtype \<Rightarrow> v6msg option"
  w_now :: "nat \<Rightarrow> gotime"
  w_GetTime :: int

text \<open>
  The effects of a transaction: a message exchanged, a change of the interface, a lease sent to
  the saver, a reading of the clock, a result sent to the collector and \<open>wg.Done()\<close>.
\<close>

datatype ev =
    EvRequest4 | EvRenew4 | EvRelease4 | EvSend6 v6msg
  | EvNet nlop | EvSave saved | EvNow gotime | EvResult dialResult | EvDone

datatype dial_error =
    NotConfigured | RequestFailed | SolicitFailed | NoAdvertise | BadAdvertise resp_error
  | NoRequest req_error | NoReply | BadReply resp_error | ApplyFailed apply_error
  | RenewFailed | ReleaseFailed | NoReleaseMsg

section \<open>Sequencing effects\<close>

type_synonym 'a act = "ev list \<times> (dial_error, 'a) gores"

fun abind :: "'a act \<Rightarrow> ('a \<Rightarrow> 'b act) \<Rightarrow> 'b act" where
  "abind (evs, Ok x) f = (case f x of (evs', r) \<Rightarrow> (evs @ evs', r))"
| "abind (evs, Fail e) f = (evs, Fail e)"
| "abind (evs, Panic) f = (evs, Panic)"

fun lift_err :: "('e \<Rightarrow> dial_error) \<Rightarrow> ('e, 'a) gores \<Rightarrow> 'a act" where
  "lift_err h (Ok x) = ([], Ok x)"
| "lift_err h (Fail e) = ([], Fail (h e))"
| "lift_err h Panic = ([], Panic)"

lemma abind_Ok: "abind m f = (evs, Ok y) \<longleftrightarrow>
    (\<exists>e1 x e2. m = (e1, Ok x) \<and> f x = (e2, Ok y) \<and> evs = e1 @ e2)"
  by (cases "(m, f)" rule: abind.cases) (auto split: prod.splits)

lemma lift_err_Ok [simp]: "lift_err h r = (evs, Ok y) \<longleftrightarrow> evs = [] \<and> r = Ok y"
  by (cases r) auto

section \<open>Sending a lease to the saver\<close>

text \<open>
  The identifier comes from the connection of the transaction's own protocol; a missing
  connection is a nil dereference.
\<close>

definition key_id :: "world \<Rightarrow> econn option \<Rightarrow> clientID act" where
  "key_id W ec =
     (case ec of
        None \<Rightarrow> ([], Panic)
      | Some c \<Rightarrow> lift_err (\<lambda>_. NotConfigured) (getClientIDFromL2Key (w_key_const W) (w_key W c)))"

definition send_lease :: "world \<Rightarrow> nat option \<Rightarrow> econn option \<Rightarrow> (clientID \<Rightarrow> saved) \<Rightarrow> unit act" where
  "send_lease W ch ec mk =
     (case ch of
        None \<Rightarrow> ([], Ok ())
      | Some n \<Rightarrow> abind (key_id W ec) (\<lambda>i. ([EvSave (mk i)], Ok ())))"

definition apply_ops :: "nlop list \<times> (apply_error, unit) gores \<Rightarrow> unit act" where
  "apply_ops p = (case p of (ops, r) \<Rightarrow> (map EvNet ops @ fst (lift_err ApplyFailed r), snd (lift_err ApplyFailed r)))"

section \<open>The deferred report\<close>

text \<open>
  The result's fields but for the outcome are those every transaction sets; the deferred call
  stamps the finish time, sends the result, and \<open>wg.Done()\<close>, deferred before, runs last.
  A transaction started without a wait group (\<open>wg\<close> nil) has no \<open>Done\<close>.
\<close>

definition done_evs :: "bool \<Rightarrow> ev list" where
  "done_evs wg = (if wg then [EvDone] else [])"

definition report :: "bool \<Rightarrow> actionType \<Rightarrow> execResult \<Rightarrow> clientID \<Rightarrow> gotime \<Rightarrow> gotime \<Rightarrow> bool \<Rightarrow> ev list" where
  "report v6 act ex i start finish wg =
     [EvNow finish,
      EvResult \<lparr>IsDHCPv6 = v6, action = act, ExecResult = ex, L2EP = i, StartTime = start,
        FinishTime = finish\<rparr>] @ done_evs wg"

fun exec_of :: "('e, 'a) gores \<Rightarrow> execResult" where
  "exec_of (Ok x) = resultSuccess"
| "exec_of _ = resultFailure"

section \<open>DHCPv4\<close>

definition dora_mods :: "testSetup \<Rightarrow> clientConfig \<Rightarrow> mod4 list" where
  "dora_mods setup c = map WithOption4 (V4Options c) @ [WithGatewayIP (addr_slice (GiAddr setup))]"

text \<open>
  The body of \<open>dialv4\<close> from the request on; its lease has the option list of
  \<open>newV4Lease()\<close>, which nothing fills.
\<close>

definition dialv4_body :: "world \<Rightarrow> testSetup \<Rightarrow> DClient \<Rightarrow> client4 \<Rightarrow> DClient \<times> unit act" where
  "dialv4_body W setup dc c =
     (case Request4 W c (dora_mods setup (cfg dc)) of
        None \<Rightarrow> (dc, [EvRequest4], Fail RequestFailed)
      | Some lease \<Rightarrow>
          let l = newV4Lease\<lparr>Lease4 := Some lease, VLANList := VLANs (cfg dc)\<rparr>;
              m = abind
                    (if ApplyLease setup
                     then apply_ops (v4_Apply (w_v4 W) (w_netlink W) l (Ifname setup) True)
                     else ([], Ok ()))
                    (\<lambda>_. send_lease W (saveV4Chan setup) (v4econn (cfg dc)) (\<lambda>i. Saved4 i l))
          in (dc\<lparr>d4Lease := Some l\<rparr>, EvRequest4 # fst m, snd m))"

definition dialv4 :: "world \<Rightarrow> testSetup \<Rightarrow> DClient \<Rightarrow> DClient \<times> unit act" where
  "dialv4 W setup dc =
     (case d4 dc of
        None \<Rightarrow> (dc, [EvDone], Fail NotConfigured)
      | Some c \<Rightarrow>
          (case dialv4_body W setup dc c of (dc', evs, r) \<Rightarrow>
             (dc', [EvNow (w_now W 0), EvNow (w_now W 1)] @ evs
                @ report False actionDORA (exec_of r) (dc_id dc) (w_now W 1) (w_now W 2) True, r)))"

text \<open>
  \<open>for t := range IDOptions\<close>, in the order of the list; \<open>Get\<close> returns the value of
  the code.
\<close>

definition id_option_mods :: "(byte \<times> bytes) list \<Rightarrow> mod4 list" where
  "id_option_mods os =
     map (\<lambda>(t, _). WithOption4 (OptGeneric4 t (case map_of os t of None \<Rightarrow> [] | Some d \<Rightarrow> d))) os"

text \<open>
  Dereferencing a missing lease content, and calling a method of a nil client, panic before the
  result exists: only the deferred \<open>wg.Done()\<close> runs.
\<close>

definition renewOrRebindv4 :: "world \<Rightarrow> testSetup \<Rightarrow> bool \<Rightarrow> actionType \<Rightarrow> DClient \<Rightarrow> DClient \<times> unit act" where
  "renewOrRebindv4 W setup wg act dc =
     (case d4Lease dc of
        None \<Rightarrow> (dc, done_evs wg, Ok ())
      | Some l \<Rightarrow>
          (case (Lease4 l, d4OtherClnt dc) of
             (Some dl, Some c) \<Rightarrow>
               let mods = id_option_mods (IDOptions4 l) @ [WithRelay (addr_slice (GiAddr setup))];
                   ok = Renew4 W c dl mods
               in (dc, [EvRenew4, EvNow (w_now W 0)]
                    @ report False act (if ok then resultSuccess else resultFailure) (dc_id dc)
                        (w_now W 0) (w_now W 1) wg,
                   if ok then Ok () else Fail RenewFailed)
           | _ \<Rightarrow> (dc, done_evs wg, Panic)))"

text \<open>\<open>for i := 0; i < 3; i++\<close> with a break on success; the number of the try goes up.\<close>

fun tries :: "(nat \<Rightarrow> bool) \<Rightarrow> nat \<Rightarrow> nat \<Rightarrow> nat \<times> bool" where
  "tries f i 0 = (0, False)"
| "tries f i (Suc k) =
     (if f i then (1, True) else case tries f (Suc i) k of (n, ok) \<Rightarrow> (Suc n, ok))"

definition releaseTries :: nat where "releaseTries = 3"

definition releasev4 :: "world \<Rightarrow> bool \<Rightarrow> DClient \<Rightarrow> DClient \<times> unit act" where
  "releasev4 W wg dc =
     (case d4Lease dc of
        None \<Rightarrow> (dc, done_evs wg, Ok ())
      | Some l \<Rightarrow>
          (case (Lease4 l, d4OtherClnt dc) of
             (Some dl, Some c) \<Rightarrow>
               (case tries (\<lambda>i. Release4 W i c dl (id_option_mods (IDOptions4 l))) 0 releaseTries of
                  (n, ok) \<Rightarrow>
                    (dc, replicate n EvRelease4 @ [EvNow (w_now W 0)]
                       @ report False actionRelease (if ok then resultSuccess else resultFailure)
                           (dc_id dc) (w_now W 0) (w_now W 1) wg,
                     if ok then Ok () else Fail ReleaseFailed))
           | _ \<Rightarrow> (dc, done_evs wg, Panic)))"

section \<open>DHCPv6\<close>

text \<open>
  The four messages of a dial. The code's branches for a solicit and for a relay-forward setup
  do the same calls; with any other message type no reply is ever assigned, and reading its
  options dereferences a nil pointer.
\<close>

definition exchange6 :: "world \<Rightarrow> testSetup \<Rightarrow> client6 \<Rightarrow> v6msg \<Rightarrow> v6msg act" where
  "exchange6 W setup c sol =
     abind ([EvSend6 sol], case SendAndRead W 0 c sol MTAdvertise of
              None \<Rightarrow> Fail NoAdvertise | Some adv \<Rightarrow> Ok adv) (\<lambda>adv.
     abind (lift_err BadAdvertise (checkResp (w_v6 W) setup adv)) (\<lambda>_.
     abind (lift_err NoRequest (NewRequestFromAdv (w_v6 W) (Some adv) [])) (\<lambda>req.
     abind ([EvSend6 req], case SendAndRead W 1 c req MTReply of
              None \<Rightarrow> Fail NoReply | Some reply \<Rightarrow> Ok reply) (\<lambda>reply.
     abind (lift_err BadReply (checkResp (w_v6 W) setup reply)) (\<lambda>_. ([], Ok reply))))))"

definition get_reply :: "world \<Rightarrow> testSetup \<Rightarrow> DClient \<Rightarrow> client6 \<Rightarrow> v6msg act" where
  "get_reply W setup dc c =
     abind (lift_err (\<lambda>_. SolicitFailed) (buildSolicit (w_v6 W) (w_GetTime W) setup (cfg dc))) (\<lambda>sol.
       if V6MsgType setup = MTSolicit then exchange6 W setup c sol
       else if V6MsgType setup = MTRelayForward then exchange6 W setup c sol
       else ([], Panic))"

definition dialv6_body :: "world \<Rightarrow> testSetup \<Rightarrow> DClient \<Rightarrow> client6 \<Rightarrow> DClient \<times> unit act" where
  "dialv6_body W setup dc c =
     (case get_reply W setup dc c of
        (evs, Ok reply) \<Rightarrow>
          let l = \<lparr>MAC6 = Mac (cfg dc), ReplyOptions = msg_opts reply,
                   LeaseType = V6MsgType setup, VLANList6 = VLANs (cfg dc),
                   IDOptions6 = V6Options (cfg dc), RelayIDOptions = V6RelayOptions (cfg dc)\<rparr>;
              m = abind
                    (if ApplyLease setup
                     then apply_ops (v6_Apply (w_v6 W) (w_netlink W) l (Ifname setup) True)
                     else ([], Ok ()))
                    (\<lambda>_. send_lease W (saveV6Chan setup) (v6econn (cfg dc)) (\<lambda>i. Saved6 i l))
          in (dc\<lparr>d6Lease := Some l\<rparr>, evs @ fst m, snd m)
      | (evs, Fail e) \<Rightarrow> (dc, evs, Fail e)
      | (evs, Panic) \<Rightarrow> (dc, evs, Panic))"

definition dialv6 :: "world \<Rightarrow> testSetup \<Rightarrow> DClient \<Rightarrow> DClient \<times> unit act" where
  "dialv6 W setup dc =
     (case d6 dc of
        None \<Rightarrow> (dc, [EvDone], Fail NotConfigured)
      | Some c \<Rightarrow>
          (case dialv6_body W setup dc c of (dc', evs, r) \<Rightarrow>
             (dc', [EvNow (w_now W 0)] @ evs
                @ report True actionDORA (exec_of r) (dc_id dc) (w_now W 0) (w_now W 1) True, r)))"

definition releaseOrRenewV6 :: "world \<Rightarrow> bool \<Rightarrow> mtype \<Rightarrow> DClient \<Rightarrow> DClient \<times> unit act" where
  "releaseOrRenewV6 W wg mt dc =
     (case d6Lease dc of
        None \<Rightarrow> (dc, done_evs wg, Ok ())
      | Some l \<Rightarrow>
          (case (case Genv6Release (w_v6 W) l mt of
                   Ok msg \<Rightarrow>
                     (case d6OtherClnt dc of
                        None \<Rightarrow> ([], Panic)
                      | Some c \<Rightarrow>
                          (case tries (\<lambda>i. SendAndRead W i c msg MTReply \<noteq> None) 0 releaseTries of
                             (n, ok) \<Rightarrow> (replicate n (EvSend6 msg),
                                          if ok then Ok () else Fail ReleaseFailed)))
                 | Fail e \<Rightarrow> ([], Fail NoReleaseMsg)
                 | Panic \<Rightarrow> ([], Panic)) of
             (evs, r) \<Rightarrow>
               (dc, [EvNow (w_now W 0)] @ evs
                  @ report True actionRelease resultSuccess (dc_id dc) (w_now W 0) (w_now W 1) wg,
                r)))"

section \<open>Interface: a transaction that reports once\<close>

definition plain :: "ev list \<Rightarrow> bool" where
  "plain evs \<longleftrightarrow> (\<forall>e \<in> set evs. case e of EvResult _ \<Rightarrow> False | EvDone \<Rightarrow> False | _ \<Rightarrow> True)"

fun results :: "ev list \<Rightarrow> dialResult list" where
  "results [] = []"
| "results (EvResult r # evs) = r # results evs"
| "results (_ # evs) = results evs"

fun saves :: "ev list \<Rightarrow> saved list" where
  "saves [] = []"
| "saves (EvSave l # evs) = l # saves evs"
| "saves (_ # evs) = saves evs"

definition dones :: "ev list \<Rightarrow> nat" where
  "dones evs = length (filter (\<lambda>e. e = EvDone) evs)"

text \<open>What a transaction with a wait group does: its work, one result, then one \<open>Done\<close>.\<close>

definition script_ok :: "ev list \<Rightarrow> bool" where
  "script_ok evs \<longleftrightarrow> (\<exists>pre t r. plain pre \<and> evs = pre @ [EvNow t, EvResult r, EvDone])"

lemma plain_simps [simp]:
  "plain []"
  "plain (xs @ ys) \<longleftrightarrow> plain xs \<and> plain ys"
  "plain (EvNow t # xs) \<longleftrightarrow> plain xs"
  "plain (EvSend6 m # xs) \<longleftrightarrow> plain xs"
  "plain (EvRequest4 # xs) \<longleftrightarrow> plain xs"
  "plain (EvRenew4 # xs) \<longleftrightarrow> plain xs"
  "plain (EvSave l # xs) \<longleftrightarrow> plain xs"
  "plain (map EvNet ops)"
  "plain (replicate n EvRelease4)"
  "plain (replicate n (EvSend6 m))"
  by (auto simp: plain_def split: ev.splits)

lemma plain_abind:
  "plain (fst m) \<Longrightarrow> (\<And>x. plain (fst (f x))) \<Longrightarrow> plain (fst (abind m f))"
  by (cases "(m, f)" rule: abind.cases) (auto split: prod.splits, metis fst_conv)

lemma plain_lift [simp]: "plain (fst (lift_err h r))"
  by (cases r) auto

lemma results_append [simp]: "results (xs @ ys) = results xs @ results ys"
  by (induction xs rule: results.induct) auto

lemma saves_append [simp]: "saves (xs @ ys) = saves xs @ saves ys"
  by (induction xs rule: saves.induct) auto

lemma dones_append [simp]: "dones (xs @ ys) = dones xs + dones ys"
  by (simp add: dones_def)

lemma plain_results: "plain evs \<Longrightarrow> results evs = []"
  by (induction evs rule: results.induct) (auto simp: plain_def)

lemma plain_dones: "plain evs \<Longrightarrow> dones evs = 0"
  by (auto simp: plain_def dones_def filter_empty_conv)

locale transaction =
  fixes run :: "DClient \<Rightarrow> DClient \<times> ev list \<times> (dial_error, unit) gores"
    and ready :: "DClient \<Rightarrow> bool"
    and ok :: "DClient \<Rightarrow> execResult"
    and v6 :: bool
    and act :: actionType
  assumes keeps_id: "dc_id (fst (run dc)) = dc_id dc"
    and reports: "ready dc \<Longrightarrow> \<exists>pre start finish. plain pre
          \<and> fst (snd (run dc)) = pre @ report v6 act (ok dc) (dc_id dc) start finish True"
begin

lemma script: "ready dc \<Longrightarrow> script_ok (fst (snd (run dc)))"
  using reports [of dc] by (fastforce simp: script_ok_def report_def done_evs_def)

lemma one_result:
  assumes "ready dc"
  shows "\<exists>start finish. results (fst (snd (run dc)))
    = [\<lparr>IsDHCPv6 = v6, action = act, ExecResult = ok dc, L2EP = dc_id dc, StartTime = start,
        FinishTime = finish\<rparr>]"
  using reports [OF assms] by (fastforce simp: report_def done_evs_def plain_results)

end

lemma script_ok_results: "script_ok evs \<Longrightarrow> length (results evs) = 1"
  by (auto simp: script_ok_def plain_results)

lemma script_ok_dones: "script_ok evs \<Longrightarrow> dones evs = 1"
  by (auto simp: script_ok_def plain_dones) (simp add: dones_def)

lemma plain_save: "plain (fst (send_lease W ch ec mk))"
  by (auto simp: send_lease_def key_id_def split: option.splits intro!: plain_abind)

lemma plain_apply: "plain (fst (apply_ops p))"
  by (auto simp: apply_ops_def split: prod.splits)

lemma plain_exchange6: "plain (fst (exchange6 W su c sol))"
  unfolding exchange6_def by (intro plain_abind) simp_all

lemma plain_get_reply: "plain (fst (get_reply W su dc c))"
  unfolding get_reply_def by (intro plain_abind) (simp_all add: plain_exchange6)

lemma plain_after:
  "plain (fst (abind (if b then apply_ops p else ([], Ok ())) (\<lambda>_. send_lease W ch ec mk)))"
  by (intro plain_abind) (simp_all add: plain_save plain_apply)

lemma dialv4_body_plain: "plain (fst (snd (dialv4_body W su dc c)))"
  by (simp add: dialv4_body_def Let_def plain_after split: option.split)

lemma dialv6_body_plain: "plain (fst (snd (dialv6_body W su dc c)))"
proof -
  have "plain (fst (snd (dialv6_body W su dc c)))" if "get_reply W su dc c = (evs, r)" for evs r
    using plain_get_reply [of W su dc c] that
    by (cases r) (simp_all add: dialv6_body_def Let_def plain_after)
  then show ?thesis by (metis prod.exhaust)
qed

lemma dialv4_body_id: "dc_id (fst (dialv4_body W su dc c)) = dc_id dc"
  by (simp add: dialv4_body_def Let_def split: option.split)

lemma dialv6_body_id: "dc_id (fst (dialv6_body W su dc c)) = dc_id dc"
  by (simp add: dialv6_body_def Let_def split: prod.split gores.split)

interpretation dora4: transaction "dialv4 W su" "\<lambda>dc. d4 dc \<noteq> None"
    "\<lambda>dc. exec_of (snd (snd (dialv4 W su dc)))" False actionDORA for W su
proof
  fix dc
  show "dc_id (fst (dialv4 W su dc)) = dc_id dc"
    using dialv4_body_id [of W su dc]
    by (auto simp: dialv4_def split: option.splits prod.splits) (metis fst_conv)
  assume "d4 dc \<noteq> None"
  then obtain c where c: "d4 dc = Some c" by auto
  obtain dc' evs r where b: "dialv4_body W su dc c = (dc', evs, r)" by (metis prod.exhaust)
  then have "plain ([EvNow (w_now W 0), EvNow (w_now W 1)] @ evs)"
    using dialv4_body_plain [of W su dc c] by simp
  then show "\<exists>pre start finish. plain pre \<and> fst (snd (dialv4 W su dc))
      = pre @ report False actionDORA (exec_of (snd (snd (dialv4 W su dc)))) (dc_id dc) start finish True"
    by (intro exI [of _ "[EvNow (w_now W 0), EvNow (w_now W 1)] @ evs"] exI conjI) (auto simp: dialv4_def c b)
qed

interpretation dora6: transaction "dialv6 W su" "\<lambda>dc. d6 dc \<noteq> None"
    "\<lambda>dc. exec_of (snd (snd (dialv6 W su dc)))" True actionDORA for W su
proof
  fix dc
  show "dc_id (fst (dialv6 W su dc)) = dc_id dc"
    using dialv6_body_id [of W su dc]
    by (auto simp: dialv6_def split: option.splits prod.splits) (metis fst_conv)
  assume "d6 dc \<noteq> None"
  then obtain c where c: "d6 dc = Some c" by auto
  obtain dc' evs r where b: "dialv6_body W su dc c = (dc', evs, r)" by (metis prod.exhaust)
  then have "plain ([EvNow (w_now W 0)] @ evs)"
    using dialv6_body_plain [of W su dc c] by simp
  then show "\<exists>pre start finish. plain pre \<and> fst (snd (dialv6 W su dc))
      = pre @ report True actionDORA (exec_of (snd (snd (dialv6 W su dc)))) (dc_id dc) start finish True"
    by (intro exI [of _ "[EvNow (w_now W 0)] @ evs"] exI conjI) (auto simp: dialv6_def c b)
qed

definition ready4 :: "DClient \<Rightarrow> bool" where
  "ready4 dc \<longleftrightarrow> d4OtherClnt dc \<noteq> None \<and> (\<exists>l dl. d4Lease dc = Some l \<and> Lease4 l = Some dl)"

interpretation rebind4: transaction "renewOrRebindv4 W su True act" ready4
    "\<lambda>dc. exec_of (snd (snd (renewOrRebindv4 W su True act dc)))" False act for W su act
proof
  fix dc
  show "dc_id (fst (renewOrRebindv4 W su True act dc)) = dc_id dc"
    by (simp add: renewOrRebindv4_def Let_def split: option.split)
  assume "ready4 dc"
  then obtain l dl c where *: "d4Lease dc = Some l" "Lease4 l = Some dl" "d4OtherClnt dc = Some c"
    by (auto simp: ready4_def)
  show "\<exists>pre start finish. plain pre \<and> fst (snd (renewOrRebindv4 W su True act dc))
      = pre @ report False act (exec_of (snd (snd (renewOrRebindv4 W su True act dc))))
          (dc_id dc) start finish True"
    by (rule exI [of _ "[EvRenew4, EvNow (w_now W 0)]"]) (auto simp: renewOrRebindv4_def * Let_def)
qed

interpretation release4: transaction "releasev4 W True" ready4
    "\<lambda>dc. exec_of (snd (snd (releasev4 W True dc)))" False actionRelease for W
proof
  fix dc
  show "dc_id (fst (releasev4 W True dc)) = dc_id dc"
    by (simp add: releasev4_def split: option.split prod.split)
  assume "ready4 dc"
  then obtain l dl c where *: "d4Lease dc = Some l" "Lease4 l = Some dl" "d4OtherClnt dc = Some c"
    by (auto simp: ready4_def)
  obtain n ok where t: "tries (\<lambda>i. Release4 W i c dl (id_option_mods (IDOptions4 l))) 0 releaseTries
      = (n, ok)" by (metis prod.exhaust)
  show "\<exists>pre start finish. plain pre \<and> fst (snd (releasev4 W True dc))
      = pre @ report False actionRelease (exec_of (snd (snd (releasev4 W True dc))))
          (dc_id dc) start finish True"
    by (rule exI [of _ "replicate n EvRelease4 @ [EvNow (w_now W 0)]"]) (auto simp: releasev4_def * t)
qed

lemma releaseOrRenewV6_shape:
  assumes "d6Lease dc = Some l"
  shows "\<exists>evs r. plain evs \<and> releaseOrRenewV6 W wg mt dc =
    (dc, [EvNow (w_now W 0)] @ evs
       @ report True actionRelease resultSuccess (dc_id dc) (w_now W 0) (w_now W 1) wg, r)"
  by (cases "Genv6Release (w_v6 W) l mt"; cases "d6OtherClnt dc")
    (auto simp: releaseOrRenewV6_def assms split: prod.splits)

interpretation release6: transaction "releaseOrRenewV6 W True mt" "\<lambda>dc. d6Lease dc \<noteq> None"
    "\<lambda>_. resultSuccess" True actionRelease for W mt
proof
  fix dc
  show "dc_id (fst (releaseOrRenewV6 W True mt dc)) = dc_id dc"
    by (simp add: releaseOrRenewV6_def split: option.split prod.split)
  assume "d6Lease dc \<noteq> None"
  then obtain l where "d6Lease dc = Some l" by auto
  from releaseOrRenewV6_shape [OF this, of W True mt] obtain evs r where
    "plain evs" "releaseOrRenewV6 W True mt dc = (dc, [EvNow (w_now W 0)] @ evs
       @ report True actionRelease resultSuccess (dc_id dc) (w_now W 0) (w_now W 1) True, r)"
    by blast
  then show "\<exists>pre start finish. plain pre \<and> fst (snd (releaseOrRenewV6 W True mt dc))
      = pre @ report True actionRelease resultSuccess (dc_id dc) start finish True"
    by (intro exI [of _ "[EvNow (w_now W 0)] @ evs"]) auto
qed

section \<open>Properties\<close>

fun sends :: "ev list \<Rightarrow> v6msg list" where
  "sends [] = []"
| "sends (EvSend6 m # evs) = m # sends evs"
| "sends (_ # evs) = sends evs"

lemma sends_append [simp]: "sends (xs @ ys) = sends xs @ sends ys"
  by (induction xs rule: sends.induct) auto

lemma sends_quiet [simp]:
  "sends (map EvNet ops) = []" "saves (map EvNet ops) = []"
  "sends (report v6 a ex i t u wg) = []" "saves (report v6 a ex i t u wg) = []"
  by (induction ops) (auto simp: report_def done_evs_def)

lemma apply_ops_quiet:
  "apply_ops p = (evs, Ok ()) \<Longrightarrow> sends evs = [] \<and> saves evs = []"
  by (cases p; cases "snd p") (auto simp: apply_ops_def)

lemma send_lease_Ok:
  assumes "send_lease W ch ec mk = (evs, Ok ())"
  shows "sends evs = []
    \<and> (if ch = None then saves evs = []
       else \<exists>e i. ec = Some e \<and> getClientIDFromL2Key (w_key_const W) (w_key W e) = Ok i
              \<and> saves evs = [mk i])"
  using assms by (auto simp: send_lease_def key_id_def abind_Ok split: option.splits)

lemma exchange6_Ok:
  assumes "exchange6 W su c sol = (evs, Ok reply)"
  shows "\<exists>adv req. SendAndRead W 0 c sol MTAdvertise = Some adv
    \<and> checkResp (w_v6 W) su adv = Ok ()
    \<and> NewRequestFromAdv (w_v6 W) (Some adv) [] = Ok req
    \<and> SendAndRead W 1 c req MTReply = Some reply
    \<and> checkResp (w_v6 W) su reply = Ok ()
    \<and> evs = [EvSend6 sol, EvSend6 req]"
  using assms by (auto simp: exchange6_def abind_Ok split: option.splits)

lemma get_reply_Ok:
  assumes "get_reply W su dc c = (evs, Ok reply)"
  shows "(V6MsgType su = MTSolicit \<or> V6MsgType su = MTRelayForward)
    \<and> (\<exists>sol. buildSolicit (w_v6 W) (w_GetTime W) su (cfg dc) = Ok sol
         \<and> exchange6 W su c sol = (evs, Ok reply))"
  using assms by (auto simp: get_reply_def abind_Ok split: if_splits)

lemma dialv6_body_Ok:
  assumes "dialv6_body W su dc c = (dc', evs, Ok ())"
  shows "\<exists>evs1 reply m1 m2 l. get_reply W su dc c = (evs1, Ok reply)
    \<and> l = \<lparr>MAC6 = Mac (cfg dc), ReplyOptions = msg_opts reply, LeaseType = V6MsgType su,
           VLANList6 = VLANs (cfg dc), IDOptions6 = V6Options (cfg dc),
           RelayIDOptions = V6RelayOptions (cfg dc)\<rparr>
    \<and> dc' = dc\<lparr>d6Lease := Some l\<rparr> \<and> evs = evs1 @ m1 @ m2
    \<and> sends m1 = [] \<and> saves m1 = []
    \<and> send_lease W (saveV6Chan su) (v6econn (cfg dc)) (\<lambda>i. Saved6 i l) = (m2, Ok ())"
proof -
  obtain evs1 r where g: "get_reply W su dc c = (evs1, r)" by (metis prod.exhaust)
  with assms obtain reply where r: "r = Ok reply"
    by (cases r) (auto simp: dialv6_body_def)
  define l where "l = \<lparr>MAC6 = Mac (cfg dc), ReplyOptions = msg_opts reply,
      LeaseType = V6MsgType su, VLANList6 = VLANs (cfg dc), IDOptions6 = V6Options (cfg dc),
      RelayIDOptions = V6RelayOptions (cfg dc)\<rparr>"
  define m where "m = abind
      (if ApplyLease su then apply_ops (v6_Apply (w_v6 W) (w_netlink W) l (Ifname su) True)
       else ([], Ok ()))
      (\<lambda>_. send_lease W (saveV6Chan su) (v6econn (cfg dc)) (\<lambda>i. Saved6 i l))"
  have d: "dc' = dc\<lparr>d6Lease := Some l\<rparr>" "evs = evs1 @ fst m" "snd m = Ok ()"
    using assms by (auto simp: dialv6_body_def g r Let_def m_def l_def)
  then have "m = (fst m, Ok ())" by (metis prod.collapse)
  then obtain m1 m2 where m:
      "(if ApplyLease su then apply_ops (v6_Apply (w_v6 W) (w_netlink W) l (Ifname su) True)
        else ([], Ok ())) = (m1, Ok ())"
      "send_lease W (saveV6Chan su) (v6econn (cfg dc)) (\<lambda>i. Saved6 i l) = (m2, Ok ())"
      "fst m = m1 @ m2"
    by (auto simp: m_def abind_Ok)
  from m(1) have "sends m1 = [] \<and> saves m1 = []"
    by (auto dest: apply_ops_quiet split: if_splits)
  with g r l_def d m show ?thesis by blast
qed

text \<open>
  A world for the applications of the properties: a server that answers every message with its own
  options and one address, endpoint keys of two VLAN identifiers, a clock that counts, and a
  release that succeeds at the second try.
\<close>

definition example_key :: "econn \<Rightarrow> bytes" where
  "example_key c =
     take 6 (ec_mac c @ replicate 6 0)
     @ take 4 (concat (map (put_be_uint16 \<circ> vlan_id) (ec_vlans c)) @ [255, 255, 255, 255])
     @ take 2 (concat (map put_be_uint16 (ec_etypes c)) @ [0, 0])"

definition example_answer :: "v6msg \<Rightarrow> mtype \<Rightarrow> v6msg" where
  "example_answer m t = \<lparr>msg_type = t,
     msg_opts = [OptServerID (DUIDOther [1]), OptIANA [0, 0, 0, 0] [V6Addr 5]] @ msg_opts m\<rparr>"

definition example_v4api :: v4api where
  "example_v4api = \<lparr>ServerIdentifier = (\<lambda>p. V4Addr 0x0A000001), SubnetMask = (\<lambda>p. [255, 255, 255, 0]),
     pkt_ToBytes = (\<lambda>p. []), pkt_FromBytes = (\<lambda>b. None)\<rparr>"

definition example_lease4 :: myDHCPv4Lease where
  "example_lease4 = (let p = \<lparr>YourIPAddr = V4Addr 0x0A000005, ClientHWAddr = [2, 0, 0, 0, 0, 7],
      pkt_options = []\<rparr> in \<lparr>Offer = p, ACK = p, CreationTime = 9\<rparr>)"

definition example_world :: world where
  "example_world =
     \<lparr>w_v4 = example_v4api, w_v6 = example_api,
      w_netlink = \<lparr>LinkByName = (\<lambda>_. True), ParseAddr = (\<lambda>_. True), AddrReplace_ok = (\<lambda>_. True),
        AddrDel_ok = (\<lambda>_. True)\<rparr>,
      w_key_const = example_key_const, w_key = example_key,
      Request4 = (\<lambda>c ms. Some example_lease4), Renew4 = (\<lambda>c l ms. False),
      Release4 = (\<lambda>n c l ms. n = 1), SendAndRead = (\<lambda>n c m t. Some (example_answer m t)),
      w_now = int, w_GetTime = 7\<rparr>"

definition example_conn :: "uint16 \<Rightarrow> econn" where
  "example_conn t = \<lparr>ec_mac = [2, 0, 0, 0, 0, 7],
     ec_vlans = [\<lparr>vlan_id = 100, vlan_etype = 0x8100\<rparr>], ec_etypes = [t]\<rparr>"

definition example_rudp :: "uint16 \<Rightarrow> rudpconn" where
  "example_rudp t = \<lparr>ru_local = AddrPort (V4Addr 0) 68, ru_econn = Some (example_conn t), ru_acceptAny = True\<rparr>"

definition example_client4 :: client4 where
  "example_client4 = \<lparr>c4_conn = example_rudp EthernetTypeIPv4, c4_hw = [2, 0, 0, 0, 0, 7], c4_opts = []\<rparr>"

definition example_client6 :: client6 where
  "example_client6 = \<lparr>c6_conn = DirectConn (example_rudp EthernetTypeIPv6),
     c6_hw = [2, 0, 0, 0, 0, 7], c6_opts = []\<rparr>"

definition example_dc :: DClient where
  "example_dc =
     \<lparr>d4 = Some example_client4, d6 = Some example_client6, d4OtherClnt = None, d6OtherClnt = None,
      d6relay = None, d4Lease = None, d6Lease = None,
      cfg = \<lparr>Mac = [2, 0, 0, 0, 0, 7], VLANs = [\<lparr>vlan_id = 100, vlan_etype = 0x8100\<rparr>],
        V4Options = [OptClientIdentifier [1]], V6Options = [], V6RelayOptions = [],
        v4econn = Some (example_conn EthernetTypeIPv4), v6econn = Some (example_conn EthernetTypeIPv6)\<rparr>,
      dc_id = ''02:00:00:00:00:07|100''\<rparr>"

definition example_run_setup :: testSetup where
  "example_run_setup = (newDefaultConf 0x8100)
     \<lparr>EnableV6 := True, V6MsgType := MTSolicit, saveV4Chan := Some 8, saveV6Chan := Some 8\<rparr>"

text \<open>
  C27: a successful DHCPv6 dial sent exactly two messages, the client's solicit and the request made
  from an advertise that passed the check; the reply passed it as well, and the lease kept for the
  client holds the reply's options, the client's MAC address and tags and its option sets. It was
  handed to the saver exactly once when leases are saved, under the client's identifier, and not at
  all otherwise.
\<close>

theorem dialv6_success:
  assumes "d6 dc = Some c" and "dialv6 W su dc = (dc', evs, Ok ())"
  shows "\<exists>sol adv req reply l.
      buildSolicit (w_v6 W) (w_GetTime W) su (cfg dc) = Ok sol
    \<and> SendAndRead W 0 c sol MTAdvertise = Some adv
    \<and> checkResp (w_v6 W) su adv = Ok ()
    \<and> NewRequestFromAdv (w_v6 W) (Some adv) [] = Ok req
    \<and> SendAndRead W 1 c req MTReply = Some reply
    \<and> checkResp (w_v6 W) su reply = Ok ()
    \<and> sends evs = [sol, req]
    \<and> d6Lease dc' = Some l
    \<and> l = \<lparr>MAC6 = Mac (cfg dc), ReplyOptions = msg_opts reply, LeaseType = V6MsgType su,
           VLANList6 = VLANs (cfg dc), IDOptions6 = V6Options (cfg dc),
           RelayIDOptions = V6RelayOptions (cfg dc)\<rparr>
    \<and> (if saveV6Chan su = None then saves evs = []
       else \<exists>e i. v6econn (cfg dc) = Some e
              \<and> getClientIDFromL2Key (w_key_const W) (w_key W e) = Ok i \<and> saves evs = [Saved6 i l])"
proof -
  obtain dc1 evs1 r where b: "dialv6_body W su dc c = (dc1, evs1, r)" by (metis prod.exhaust)
  with assms have e: "r = Ok ()" "dc1 = dc'"
    "sends evs = sends evs1" "saves evs = saves evs1"
    by (auto simp: dialv6_def)
  from dialv6_body_Ok [OF b [unfolded e(1)]] obtain e1 reply m1 m2 l where
    1: "get_reply W su dc c = (e1, Ok reply)"
    and l: "l = \<lparr>MAC6 = Mac (cfg dc), ReplyOptions = msg_opts reply, LeaseType = V6MsgType su,
           VLANList6 = VLANs (cfg dc), IDOptions6 = V6Options (cfg dc),
           RelayIDOptions = V6RelayOptions (cfg dc)\<rparr>"
    and dc1: "dc1 = dc\<lparr>d6Lease := Some l\<rparr>" and evs1: "evs1 = e1 @ m1 @ m2"
    and quiet: "sends m1 = []" "saves m1 = []"
    and s: "send_lease W (saveV6Chan su) (v6econn (cfg dc)) (\<lambda>i. Saved6 i l) = (m2, Ok ())"
    by blast
  from get_reply_Ok [OF 1] obtain sol where sol: "buildSolicit (w_v6 W) (w_GetTime W) su (cfg dc) = Ok sol"
    "exchange6 W su c sol = (e1, Ok reply)" by blast
  from exchange6_Ok [OF sol(2)] obtain adv req where x:
    "SendAndRead W 0 c sol MTAdvertise = Some adv" "checkResp (w_v6 W) su adv = Ok ()"
    "NewRequestFromAdv (w_v6 W) (Some adv) [] = Ok req" "SendAndRead W 1 c req MTReply = Some reply"
    "checkResp (w_v6 W) su reply = Ok ()" "e1 = [EvSend6 sol, EvSend6 req]" by blast
  have sv: "if saveV6Chan su = None then saves evs = []
       else \<exists>e i. v6econn (cfg dc) = Some e
              \<and> getClientIDFromL2Key (w_key_const W) (w_key W e) = Ok i \<and> saves evs = [Saved6 i l]"
    using send_lease_Ok [OF s]
    by (cases "saveV6Chan su") (simp_all add: e(4) evs1 quiet x(6))
  have sd: "sends evs = [sol, req]"
    using send_lease_Ok [OF s] by (simp add: e(3) evs1 quiet x(6))
  have "d6Lease dc' = Some l" using dc1 e(2) by simp
  with sol(1) x sd sv l show ?thesis by blast
qed

theorem dialv6_success_witness:
  "\<exists>l. d6Lease (fst (dialv6 example_world example_run_setup example_dc)) = Some l
     \<and> MAC6 l = [2, 0, 0, 0, 0, 7]"
proof -
  have "is_Ok (snd (snd (dialv6 example_world example_run_setup example_dc)))" by code_simp
  then have *: "dialv6 example_world example_run_setup example_dc
      = (fst (dialv6 example_world example_run_setup example_dc),
         fst (snd (dialv6 example_world example_run_setup example_dc)), Ok ())"
    by (cases "dialv6 example_world example_run_setup example_dc")
      (auto simp: is_Ok_def)
  have "d6 example_dc = Some example_client6" "Mac (cfg example_dc) = [2, 0, 0, 0, 0, 7]"
    by (simp_all add: example_dc_def)
  from dialv6_success [OF this(1) *] this(2) show ?thesis by fastforce
qed

text \<open>
  a dial reports exactly once, as the last thing before its wait group is released: whatever
  happens in between (errors and panics included), the result sent names the client, the protocol
  and the dial, and says success exactly when the dial returned no error.
\<close>

theorem dials_report_once:
  assumes "d4 dc = Some c4" and "d6 dc = Some c6"
    and "dialv4 W su dc = (dc4, evs4, r4)" and "dialv6 W su dc = (dc6, evs6, r6)"
  shows "script_ok evs4 \<and> script_ok evs6
    \<and> (\<exists>start finish. results evs4 = [\<lparr>IsDHCPv6 = False, action = actionDORA,
         ExecResult = exec_of r4, L2EP = dc_id dc, StartTime = start, FinishTime = finish\<rparr>])
    \<and> (\<exists>start finish. results evs6 = [\<lparr>IsDHCPv6 = True, action = actionDORA,
         ExecResult = exec_of r6, L2EP = dc_id dc, StartTime = start, FinishTime = finish\<rparr>])"
  using dora4.script [of dc W su] dora4.one_result [of dc W su]
    dora6.script [of dc W su] dora6.one_result [of dc W su] assms
  by simp

theorem dials_report_once_witness:
  "script_ok (fst (snd (dialv4 example_world example_run_setup example_dc)))
   \<and> script_ok (fst (snd (dialv6 example_world example_run_setup example_dc)))"
proof -
  have "d4 example_dc = Some example_client4" "d6 example_dc = Some example_client6"
    by (simp_all add: example_dc_def)
  from dials_report_once [OF this, of example_world example_run_setup] show ?thesis
    by (metis prod.collapse)
qed

lemma tries_spec:
  "tries f i k = (n, ok) \<Longrightarrow> n \<le> k \<and> (\<forall>j. i \<le> j \<and> j < i + (if ok then n - 1 else n) \<longrightarrow> \<not> f j)
     \<and> (if ok then 0 < n \<and> f (i + n - 1) else n = k)"
proof (induction k arbitrary: i n ok)
  case (Suc k)
  show ?case
  proof (cases "f i")
    case True
    with Suc.prems show ?thesis by auto
  next
    case False
    with Suc.prems obtain m where m: "tries f (Suc i) k = (m, ok)" "n = Suc m"
      by (auto split: prod.splits)
    have "\<not> f j" if "i \<le> j" "j < i + (if ok then n - 1 else n)" for j
    proof (cases "j = i")
      case True
      with False show ?thesis by simp
    next
      case n: False
      with that have "Suc i \<le> j" "j < Suc i + (if ok then m - 1 else m)"
        using Suc.IH [OF m(1)] m(2) by (auto split: if_splits)
      with Suc.IH [OF m(1)] show ?thesis by blast
    qed
    with Suc.IH [OF m(1)] m(2) show ?thesis by (auto split: if_splits)
  qed
qed auto

text \<open>
  C35: releasing an IPv4 lease makes at most three tries, stops at the first that succeeds, and
  reports a failure exactly when all three fail. The result's start time is read after the tries.
\<close>

theorem release_three_tries:
  assumes "d4Lease dc = Some l" and "Lease4 l = Some dl" and "d4OtherClnt dc = Some c"
    and "releasev4 W wg dc = (dc', evs, r)"
  shows "\<exists>n. 0 < n \<and> n \<le> 3
    \<and> evs = replicate n EvRelease4 @ [EvNow (w_now W 0)]
        @ report False actionRelease (exec_of r) (dc_id dc) (w_now W 0) (w_now W 1) wg
    \<and> {i. i < n \<and> Release4 W i c dl (id_option_mods (IDOptions4 l))}
        = (if r = Ok () then {n - 1} else {})
    \<and> (if r = Ok () then True else r = Fail ReleaseFailed \<and> n = 3)"
proof -
  let ?f = "\<lambda>i. Release4 W i c dl (id_option_mods (IDOptions4 l))"
  obtain n ok where t: "tries ?f 0 releaseTries = (n, ok)" by (metis prod.exhaust)
  from assms t have e: "r = (if ok then Ok () else Fail ReleaseFailed)"
    "evs = replicate n EvRelease4 @ [EvNow (w_now W 0)]
       @ report False actionRelease (exec_of r) (dc_id dc) (w_now W 0) (w_now W 1) wg"
    by (auto simp: releasev4_def)
  from tries_spec [OF t] have s: "n \<le> 3" "\<And>j. j < (if ok then n - 1 else n) \<Longrightarrow> \<not> ?f j"
    "if ok then 0 < n \<and> ?f (n - 1) else n = 3"
    by (auto simp: releaseTries_def)
  have f: "{i. i < n \<and> ?f i} = (if r = Ok () then {n - 1} else {})"
  proof (cases ok)
    case True
    have "i = n - 1" if "i < n" "?f i" for i
      using s(2) [of i] that True by (cases "i < n - 1") auto
    with True s(3) show ?thesis by (auto simp: e(1))
  next
    case False
    with s(2) show ?thesis by (auto simp: e(1))
  qed
  show ?thesis using e f s(1,3) by (intro exI [of _ n]) (auto split: if_splits)
qed

theorem release_three_tries_witness:
  "snd (snd (releasev4 example_world True
     (example_dc\<lparr>d4Lease := Some (newV4Lease\<lparr>Lease4 := Some example_lease4\<rparr>),
        d4OtherClnt := Some example_client4\<rparr>))) = Ok ()"
proof -
  let ?l = "newV4Lease\<lparr>Lease4 := Some example_lease4\<rparr>"
  let ?dc = "example_dc\<lparr>d4Lease := Some ?l, d4OtherClnt := Some example_client4\<rparr>"
  have h: "d4Lease ?dc = Some ?l" "Lease4 ?l = Some example_lease4"
    "d4OtherClnt ?dc = Some example_client4"
    by simp_all
  have r: "\<And>i. Release4 example_world i example_client4 example_lease4 ms = (i = 1)" for ms
    by (simp add: example_world_def)
  obtain dc' evs r0 where run: "releasev4 example_world True ?dc = (dc', evs, r0)"
    by (metis prod.exhaust)
  obtain n :: nat where n: "n \<le> 3" "{i. i < n \<and> i = 1} = (if r0 = Ok () then {n - 1} else {})"
      "if r0 = Ok () then True else r0 = Fail ReleaseFailed \<and> n = 3"
    using release_three_tries [OF h run] unfolding r
    by (elim exE conjE) (rule that; assumption)
  have "r0 = Ok ()"
  proof (rule ccontr)
    assume "r0 \<noteq> Ok ()"
    with n have "n = 3" "{i. i < n \<and> i = 1} = {}" by auto
    then show False by auto
  qed
  then show ?thesis using run by simp
qed

text \<open>
  releasing or renewing a DHCPv6 lease always reports a successful release, even when no reply
  ever came or no message could be built: the outcome of the call does not reach the result.
\<close>

theorem v6_release_always_success:
  assumes "d6Lease dc = Some l" and "releaseOrRenewV6 W wg mt dc = (dc', evs, r)"
  shows "\<exists>start finish. results evs = [\<lparr>IsDHCPv6 = True, action = actionRelease,
     ExecResult = resultSuccess, L2EP = dc_id dc, StartTime = start, FinishTime = finish\<rparr>]"
  using releaseOrRenewV6_shape [OF assms(1), of W wg mt] assms(2)
  by (auto simp: plain_results report_def done_evs_def)

theorem v6_release_always_success_witness:
  "\<exists>start finish. results (fst (snd (releaseOrRenewV6 example_world True MTRenew
     (example_dc\<lparr>d6Lease := Some \<lparr>MAC6 = [], ReplyOptions = [], LeaseType = MTSolicit,
        VLANList6 = [], IDOptions6 = [], RelayIDOptions = []\<rparr>\<rparr>))))
    = [\<lparr>IsDHCPv6 = True, action = actionRelease, ExecResult = resultSuccess,
        L2EP = ''02:00:00:00:00:07|100'', StartTime = start, FinishTime = finish\<rparr>]"
proof -
  let ?l = "\<lparr>MAC6 = [], ReplyOptions = [], LeaseType = MTSolicit,
        VLANList6 = [], IDOptions6 = [], RelayIDOptions = []\<rparr>"
  let ?dc = "example_dc\<lparr>d6Lease := Some ?l\<rparr>"
  have h: "d6Lease ?dc = Some ?l" "dc_id ?dc = ''02:00:00:00:00:07|100''"
    by (simp_all add: example_dc_def)
  show ?thesis
    using v6_release_always_success [OF h(1), of example_world True MTRenew] unfolding h(2)
    by (metis prod.collapse)
qed

text \<open>
  the lease kept by a successful IPv4 dial never holds identifying options, whatever options
  the client sent, so a renewal of it carries the relay address and no option.
\<close>

theorem dialv4_lease_no_options:
  assumes "d4 dc = Some c" and "dialv4 W su dc = (dc', evs, Ok ())"
  shows "\<exists>l dl. d4Lease dc' = Some l \<and> Lease4 l = Some dl \<and> VLANList l = VLANs (cfg dc)
    \<and> Request4 W c (dora_mods su (cfg dc)) = Some dl
    \<and> id_option_mods (IDOptions4 l) = []"
proof -
  obtain dc1 evs1 r where b: "dialv4_body W su dc c = (dc1, evs1, r)" by (metis prod.exhaust)
  with assms have e: "r = Ok ()" "dc1 = dc'" by (auto simp: dialv4_def)
  with b show ?thesis
    by (auto simp: dialv4_body_def Let_def newV4Lease_def id_option_mods_def split: option.splits)
qed

theorem dialv4_lease_no_options_witness:
  "\<exists>l. d4Lease (fst (dialv4 example_world example_run_setup example_dc)) = Some l
     \<and> id_option_mods (IDOptions4 l) = []"
proof -
  have "is_Ok (snd (snd (dialv4 example_world example_run_setup example_dc)))" by code_simp
  then have *: "dialv4 example_world example_run_setup example_dc
      = (fst (dialv4 example_world example_run_setup example_dc),
         fst (snd (dialv4 example_world example_run_setup example_dc)), Ok ())"
    by (cases "dialv4 example_world example_run_setup example_dc")
      (auto simp: is_Ok_def)
  have "d4 example_dc = Some example_client4" by (simp add: example_dc_def)
  from dialv4_lease_no_options [OF this *] show ?thesis by blast
qed

end
