(* ===== verification/Clients.thy ===== *)
theory Clients
  imports Dial
begin

text \<open>
  Making the clients (\<open>sched.go\<close>): \<open>NewSched\<close> with the two kinds of start, the router
  solicitation that may precede a client's DHCPv6, \<open>createV4OtherClnt\<close> and
  \<open>createV6OtherClnt\<close>, and the neighbour discovery proxy for the clients' link-local
  addresses (\<open>ndproxy.go\<close>).
\<close>

section \<open>The network libraries\<close>

text \<open>
  Whether the constructors succeed on their arguments, and the link-local address of a MAC
  address (\<open>myaddr.GetLLAFromMac\<close>).
\<close>

record netlib =
  NewRUDPConn_ok :: "rudpconn \<Rightarrow> bool"
  NewClient4_ok :: "client4 \<Rightarrow> bool"
  NewClient6_ok :: "client6 \<Rightarrow> bool"
  GetLLAFromMac :: "bytes \<Rightarrow> netip"

datatype sched_error =
    NoV4Lease | NoV6Lease | RudpFailed | Client4Failed | Client6Failed | UnsupportedV6Type
  | GenFailed gen_error | RAFailed | SendRSFailed | NoMBit | FatalExit

definition RUDPConn :: "netlib \<Rightarrow> rudpconn \<Rightarrow> (sched_error, rudpconn) gores" where
  "RUDPConn NL u = (if NewRUDPConn_ok NL u then Ok u else Fail RudpFailed)"

definition Client4 :: "netlib \<Rightarrow> client4 \<Rightarrow> (sched_error, client4) gores" where
  "Client4 NL c = (if NewClient4_ok NL c then Ok c else Fail Client4Failed)"

definition Client6 :: "netlib \<Rightarrow> client6 \<Rightarrow> (sched_error, client6) gores" where
  "Client6 NL c = (if NewClient6_ok NL c then Ok c else Fail Client6Failed)"

section \<open>Local addresses\<close>

definition local_port4 :: "testSetup \<Rightarrow> int" where
  "local_port4 su =
     (let p = ClientPort4;
          p = (if \<not> addr_is_unspecified (GiAddr su) then ServerPort4 else p)
      in if uint (SourceV4Port su) \<noteq> ClientPort4 then uint (SourceV4Port su) else p)"

definition local_addr6 :: "netlib \<Rightarrow> testSetup \<Rightarrow> bytes \<Rightarrow> localaddr" where
  "local_addr6 NL su mac =
     (if \<not> addr_is_unspecified (SourceV6Addr su)
      then AddrPort (SourceV6Addr su) (uint (SourceV6Port su))
      else AddrPort (GetLLAFromMac NL mac) (uint (SourceV6Port su)))"

section \<open>Router solicitation\<close>

text \<open>
  What \<open>sendRS\<close> hands to the connection: the fields of the packet it serialises and the
  addresses of the frame.
\<close>

record router_solicit =
  rs_src :: netip
  rs_dst :: netip
  rs_hoplimit :: nat
  rs_source_lla :: bytes
  rs_frame_src :: bytes
  rs_vlans :: vlans

definition make_rs :: "netlib \<Rightarrow> clientConfig \<Rightarrow> router_solicit" where
  "make_rs NL c =
     \<lparr>rs_src = GetLLAFromMac NL (Mac c), rs_dst = V6Addr 0xFF020000000000000000000000000002,
      rs_hoplimit = 255, rs_source_lla = Mac c, rs_frame_src = Mac c, rs_vlans = VLANs c\<rparr>"

text \<open>
  The outcome of one \<open>ReadPkt\<close>: a time-out, another error, or a packet with, if it is a
  router advertisement, its flags.
\<close>

datatype read_out = ReadTimedOut | ReadFailed | GotPkt "byte option"

fun ra_loop :: "(nat \<Rightarrow> read_out) \<Rightarrow> nat \<Rightarrow> nat \<Rightarrow> (sched_error, unit) gores" where
  "ra_loop f i 0 = Fail RAFailed"
| "ra_loop f i (Suc k) =
     (case f i of
        ReadTimedOut \<Rightarrow> ra_loop f (Suc i) k
      | ReadFailed \<Rightarrow> Fail RAFailed
      | GotPkt None \<Rightarrow> ra_loop f (Suc i) k
      | GotPkt (Some flags) \<Rightarrow>
          if (drop_bit 7 flags :: byte) \<noteq> 0 then Ok () else Fail NoMBit)"

record ra_world =
  WriteRS_ok :: "router_solicit \<Rightarrow> bool"
  ReadPkt_nth :: "clientConfig \<Rightarrow> nat \<Rightarrow> read_out"

definition sendRS :: "netlib \<Rightarrow> ra_world \<Rightarrow> clientConfig \<Rightarrow> (sched_error, unit) gores" where
  "sendRS NL R c =
     (if \<not> WriteRS_ok R (make_rs NL c) then Fail SendRSFailed
      else ra_loop (ReadPkt_nth R c) 0 3)"

section \<open>The clients of a fresh start\<close>

definition new_d4 :: "netlib \<Rightarrow> testSetup \<Rightarrow> clientConfig \<Rightarrow> econn \<Rightarrow> (sched_error, client4) gores" where
  "new_d4 NL su c ec =
     (let local_addr = (if \<not> addr_is_unspecified (SourceV4Addr su)
                        then AddrPort (SourceV4Addr su) (local_port4 su)
                        else AddrPort (V4Addr 0) (local_port4 su))
      in gbind (RUDPConn NL \<lparr>ru_local = local_addr, ru_econn = Some ec, ru_acceptAny = True\<rparr>) (\<lambda>u.
         Client4 NL \<lparr>c4_conn = u, c4_hw = Mac c,
           c4_opts = [WithRetry (sint (Retry su)), WithTimeout (Timeout su)]
             @ (if Debug su then [WithDebugLogger] else []) @ [WithHWAddr (Mac c)]\<rparr>))"

definition new_relay :: "netlib \<Rightarrow> rudpconn \<Rightarrow> bytes \<Rightarrow> v6opt list \<Rightarrow> relayagent" where
  "new_relay NL u mac opts =
     \<lparr>ra_network = u, ra_linkAddr = V6Addr 0, ra_peerAddr = GetLLAFromMac NL mac, ra_options = opts\<rparr>"

definition new_d6 :: "netlib \<Rightarrow> ra_world \<Rightarrow> testSetup \<Rightarrow> clientConfig \<Rightarrow> econn
    \<Rightarrow> (sched_error, client6 \<times> relayagent option) gores" where
  "new_d6 NL R su c ec =
     gbind (if SendRSFirst su then sendRS NL R c else Ok ()) (\<lambda>_.
     gbind (RUDPConn NL \<lparr>ru_local = local_addr6 NL su (Mac c), ru_econn = Some ec, ru_acceptAny = True\<rparr>)
       (\<lambda>u.
         let mods = (if Debug su then [WithDebugLogger6, WithLogDroppedPackets] else [])
         in if V6MsgType su = MTSolicit then
              gbind (Client6 NL \<lparr>c6_conn = DirectConn u, c6_hw = Mac c, c6_opts = mods\<rparr>)
                (\<lambda>c6. Ok (c6, None))
            else if V6MsgType su = MTRelayForward then
              gbind (Client6 NL \<lparr>c6_conn = PairConn, c6_hw = Mac c, c6_opts = mods\<rparr>)
                (\<lambda>c6. Ok (c6, Some (new_relay NL u (Mac c) (V6RelayOptions c))))
            else Fail UnsupportedV6Type))"

text \<open>
  One configuration of the loop, its two protocols first. The endpoint key is that of the last
  connection looked at, and all zeroes when there is none.
\<close>

definition client_v4 :: "netlib \<Rightarrow> key_const \<Rightarrow> (econn \<Rightarrow> bytes) \<Rightarrow> testSetup \<Rightarrow> clientConfig
    \<Rightarrow> (sched_error, bytes \<times> client4 option) gores" where
  "client_v4 NL K key su c =
     (case v4econn c of
        None \<Rightarrow> Ok (replicate (L2EndpointKeySize K) 0, None)
      | Some ec \<Rightarrow> gbind (new_d4 NL su c ec) (\<lambda>c4. Ok (key ec, Some c4)))"

definition client_v6 :: "netlib \<Rightarrow> ra_world \<Rightarrow> (econn \<Rightarrow> bytes) \<Rightarrow> testSetup \<Rightarrow> clientConfig \<Rightarrow> bytes
    \<Rightarrow> (sched_error, bytes \<times> client6 option \<times> relayagent option) gores" where
  "client_v6 NL R key su c k =
     (case v6econn c of
        None \<Rightarrow> Ok (k, None, None)
      | Some ec \<Rightarrow> gbind (new_d6 NL R su c ec) (\<lambda>(c6, ra). Ok (key ec, Some c6, ra)))"

definition new_client :: "netlib \<Rightarrow> ra_world \<Rightarrow> key_const \<Rightarrow> (econn \<Rightarrow> bytes) \<Rightarrow> testSetup
    \<Rightarrow> clientConfig \<Rightarrow> (sched_error, DClient) gores" where
  "new_client NL R K key su c =
     gbind (client_v4 NL K key su c) (\<lambda>(k, c4).
     gbind (client_v6 NL R key su c k) (\<lambda>(k, c6, ra).
     (case getClientIDFromL2Key K k of
        Ok i \<Rightarrow> Ok \<lparr>d4 = c4, d6 = c6, d4OtherClnt = None, d6OtherClnt = None, d6relay = ra,
                   d4Lease = None, d6Lease = None, cfg = c, dc_id = i\<rparr>
      | _ \<Rightarrow> Panic)))"

type_synonym clnt_list = "clientID \<rightharpoonup> DClient"

fun new_clients :: "netlib \<Rightarrow> ra_world \<Rightarrow> key_const \<Rightarrow> (econn \<Rightarrow> bytes) \<Rightarrow> testSetup
    \<Rightarrow> clientConfig list \<Rightarrow> clnt_list \<Rightarrow> (sched_error, clnt_list) gores" where
  "new_clients NL R K key su [] m = Ok m"
| "new_clients NL R K key su (c # cs) m =
     gbind (new_client NL R K key su c) (\<lambda>dc. new_clients NL R K key su cs (m(dc_id dc \<mapsto> dc)))"

section \<open>The neighbour discovery proxy\<close>

record L2Encap =
  HwAddr :: bytes
  Vlans :: vlans

text \<open>The text of an address is the key; addresses have distinct texts.\<close>

type_synonym nd_targets = "netip \<rightharpoonup> L2Encap"

fun lla_list :: "netlib \<Rightarrow> clientConfig list \<Rightarrow> nd_targets \<Rightarrow> nd_targets" where
  "lla_list NL [] m = m"
| "lla_list NL (c # cs) m =
     lla_list NL cs (m(GetLLAFromMac NL (Mac c) \<mapsto> \<lparr>HwAddr = Mac c, Vlans = VLANs c\<rparr>))"

text \<open>
  A received packet: its source and, if it is a neighbour solicitation, the target. The
  answer: the advertisement's target, flags and link-layer option, its IP addresses and the
  frame's addresses and tags.
\<close>

record nd_packet =
  nd_src :: netip
  nd_target :: "netip option"

record nd_advert =
  na_target :: netip
  na_flags :: byte
  na_lladdr :: bytes
  na_src :: netip
  na_dst :: netip
  na_hoplimit :: nat
  na_frame_src :: bytes
  na_frame_dst :: bytes
  na_vlans :: vlans

definition processReq :: "nd_targets \<Rightarrow> nd_packet \<Rightarrow> bytes \<Rightarrow> nd_advert option" where
  "processReq targets pkt peermac =
     (case nd_target pkt of
        None \<Rightarrow> None
      | Some t \<Rightarrow>
          (case targets t of
             None \<Rightarrow> None
           | Some l2ep \<Rightarrow>
               Some \<lparr>na_target = t, na_flags = 64, na_lladdr = HwAddr l2ep, na_src = t,
                     na_dst = nd_src pkt, na_hoplimit = 255, na_frame_src = HwAddr l2ep,
                     na_frame_dst = peermac, na_vlans = Vlans l2ep\<rparr>))"

section \<open>\<open>NewSched\<close>\<close>

record Sched =
  ClntList :: clnt_list
  nd_proxy :: "nd_targets option" \<comment> \<open>the targets of the proxy, if one is started\<close>
  sched_setup :: testSetup

text \<open>A client made from a saved lease has no connection and no DHCP client yet.\<close>

definition empty_cfg :: clientConfig where
  "empty_cfg = \<lparr>Mac = [], VLANs = [], V4Options = [], V6Options = [], V6RelayOptions = [],
     v4econn = None, v6econn = None\<rparr>"

definition loaded_client :: "clientID \<Rightarrow> fullStackLease \<Rightarrow> DClient" where
  "loaded_client i fl =
     \<lparr>d4 = None, d6 = None, d4OtherClnt = None, d6OtherClnt = None, d6relay = None,
      d4Lease = V4 fl, d6Lease = V6 fl, cfg = empty_cfg, dc_id = i\<rparr>"

text \<open>\<open>loaded\<close> is what \<open>loadLeaseFromFile\<close> returns; its error ends the program.\<close>

definition NewSched :: "netlib \<Rightarrow> ra_world \<Rightarrow> v6api \<Rightarrow> addr_lib \<Rightarrow> key_const \<Rightarrow> (econn \<Rightarrow> bytes)
    \<Rightarrow> leaseMap option \<Rightarrow> testSetup \<Rightarrow> (sched_error, Sched) gores" where
  "NewSched NL R A L K key loaded su =
     (if Action su \<noteq> actionDORA then
        (case loaded of
           None \<Rightarrow> Fail FatalExit
         | Some m \<Rightarrow> Ok \<lparr>ClntList = (\<lambda>i. map_option (loaded_client i) (m i)), nd_proxy = None,
                        sched_setup = su\<rparr>)
      else
        (case genClientConfigurations A L su of
           Fail e \<Rightarrow> Fail (GenFailed e)
         | Panic \<Rightarrow> Panic
         | Ok cfgs \<Rightarrow>
             gbind (new_clients NL R K key su cfgs Map.empty) (\<lambda>m.
               Ok \<lparr>ClntList = m,
                   nd_proxy = (if EnableV6 su then Some (lla_list NL cfgs Map.empty) else None),
                   sched_setup = su\<rparr>)))"

section \<open>The clients for release, renewal and rebinding\<close>

definition createV4OtherClnt :: "netlib \<Rightarrow> v4api \<Rightarrow> testSetup \<Rightarrow> actionType \<Rightarrow> DClient
    \<Rightarrow> (sched_error, DClient) gores" where
  "createV4OtherClnt NL B su act dc =
     (case d4Lease dc of
        None \<Rightarrow> Fail NoV4Lease
      | Some l \<Rightarrow>
          (case Lease4 l of
             None \<Rightarrow> Panic
           | Some dl \<Rightarrow>
               let local_addr = (if \<not> addr_is_unspecified (SourceV4Addr su)
                     then AddrPort (SourceV4Addr su) (local_port4 su)
                     else AddrPort (YourIPAddr (ACK dl)) (local_port4 su))
               in gbind (RUDPConn NL \<lparr>ru_local = local_addr, ru_econn = v4econn (cfg dc),
                            ru_acceptAny = False\<rparr>) (\<lambda>u.
                  gbind (Client4 NL \<lparr>c4_conn = u, c4_hw = ClientHWAddr (ACK dl),
                     c4_opts = [WithHWAddr (ClientHWAddr (ACK dl))]
                       @ (if Debug su then [WithDebugLogger] else [])
                       @ (if act \<noteq> actionRebind
                          then [WithServerAddr (ServerIdentifier B (ACK dl)) ServerPort4] else [])\<rparr>)
                  (\<lambda>c. Ok (dc\<lparr>d4OtherClnt := Some c\<rparr>)))))"

definition createV6OtherClnt :: "netlib \<Rightarrow> testSetup \<Rightarrow> DClient \<Rightarrow> (sched_error, DClient) gores" where
  "createV6OtherClnt NL su dc =
     (case d6Lease dc of
        None \<Rightarrow> Fail NoV6Lease
      | Some l \<Rightarrow>
          gbind (RUDPConn NL \<lparr>ru_local = local_addr6 NL su (MAC6 l), ru_econn = v6econn (cfg dc),
                   ru_acceptAny = True\<rparr>) (\<lambda>u.
            if V6MsgType su = MTSolicit then
              gbind (Client6 NL \<lparr>c6_conn = DirectConn u, c6_hw = MAC6 l, c6_opts = []\<rparr>)
                (\<lambda>c. Ok (dc\<lparr>d6OtherClnt := Some c\<rparr>))
            else if V6MsgType su = MTRelayForward then
              gbind (Client6 NL \<lparr>c6_conn = PairConn, c6_hw = MAC6 l, c6_opts = []\<rparr>)
                (\<lambda>c. Ok (dc\<lparr>d6OtherClnt := Some c,
                      d6relay := Some (new_relay NL u (MAC6 l) (RelayIDOptions l))\<rparr>))
            else Ok dc))"

section \<open>What the libraries promise\<close>

text \<open>
  An endpoint key has the fixed size of its array type and starts with the MAC address;
  different MAC addresses have different link-local addresses (the interface identifier is the
  MAC address with one bit inverted and two bytes put in).
\<close>

definition key_law :: "key_const \<Rightarrow> (econn \<Rightarrow> bytes) \<Rightarrow> bool" where
  "key_law K key \<longleftrightarrow>
     (\<forall>c. length (ec_mac c) = 6 \<longrightarrow> key_ok K (key c) \<and> take 6 (key c) = ec_mac c)"

definition lla_law :: "netlib \<Rightarrow> bool" where
  "lla_law NL \<longleftrightarrow> inj_on (GetLLAFromMac NL) {m. length m = 6}"

section \<open>The client table\<close>

lemma client_v4_Ok:
  "client_v4 NL K key su c = Ok (k, c4) \<Longrightarrow>
     (c4 \<noteq> None) = (v4econn c \<noteq> None)
     \<and> k = (case v4econn c of Some ec \<Rightarrow> key ec | None \<Rightarrow> replicate (L2EndpointKeySize K) 0)"
  by (auto simp: client_v4_def gbind_eq_Ok split: option.splits)

lemma client_v6_Ok:
  "client_v6 NL R key su c k = Ok (k', c6, ra) \<Longrightarrow>
     (c6 \<noteq> None) = (v6econn c \<noteq> None)
     \<and> k' = (case v6econn c of Some ec \<Rightarrow> key ec | None \<Rightarrow> k)"
  by (auto simp: client_v6_def gbind_eq_Ok split: option.splits)

lemma new_client_OkD:
  assumes "new_client NL R K key su c = Ok dc"
  shows "cfg dc = c" "(d4 dc \<noteq> None) = (v4econn c \<noteq> None)" "(d6 dc \<noteq> None) = (v6econn c \<noteq> None)"
    "d4Lease dc = None" "d6Lease dc = None" "d4OtherClnt dc = None" "d6OtherClnt dc = None"
    "getClientIDFromL2Key K (case v6econn c of Some ec \<Rightarrow> key ec
       | None \<Rightarrow> (case v4econn c of Some ec \<Rightarrow> key ec | None \<Rightarrow> replicate (L2EndpointKeySize K) 0))
     = Ok (dc_id dc)"
proof -
  from assms obtain k c4 where 1: "client_v4 NL K key su c = Ok (k, c4)"
    by (auto simp: new_client_def gbind_eq_Ok)
  with assms obtain k' c6 ra where 2: "client_v6 NL R key su c k = Ok (k', c6, ra)"
    by (auto simp: new_client_def gbind_eq_Ok)
  from assms obtain i where i: "getClientIDFromL2Key K k' = Ok i" "dc = \<lparr>d4 = c4, d6 = c6,
      d4OtherClnt = None, d6OtherClnt = None, d6relay = ra, d4Lease = None, d6Lease = None,
      cfg = c, dc_id = i\<rparr>"
    by (cases "getClientIDFromL2Key K k'") (auto simp: new_client_def 1 2)
  show "cfg dc = c" "(d4 dc \<noteq> None) = (v4econn c \<noteq> None)" "(d6 dc \<noteq> None) = (v6econn c \<noteq> None)"
    "d4Lease dc = None" "d6Lease dc = None" "d4OtherClnt dc = None" "d6OtherClnt dc = None"
    using client_v4_Ok [OF 1] client_v6_Ok [OF 2] by (simp_all add: i(2))
  show "getClientIDFromL2Key K (case v6econn c of Some ec \<Rightarrow> key ec
       | None \<Rightarrow> (case v4econn c of Some ec \<Rightarrow> key ec | None \<Rightarrow> replicate (L2EndpointKeySize K) 0))
     = Ok (dc_id dc)"
    using i client_v4_Ok [OF 1] client_v6_Ok [OF 2]
    by (cases "v6econn c"; cases "v4econn c") simp_all
qed

definition table_of :: "DClient list \<Rightarrow> clnt_list \<Rightarrow> clnt_list" where
  "table_of dcs m = fold (\<lambda>dc m. m(dc_id dc \<mapsto> dc)) dcs m"

lemma new_clients_OkD:
  assumes "new_clients NL R K key su cs m = Ok m'"
  shows "\<exists>dcs. list_all2 (\<lambda>c dc. new_client NL R K key su c = Ok dc) cs dcs \<and> m' = table_of dcs m"
  using assms
proof (induction cs arbitrary: m)
  case Nil
  then show ?case by (intro exI [of _ "[]"]) (simp add: table_of_def)
next
  case (Cons c cs)
  then obtain dc where dc: "new_client NL R K key su c = Ok dc"
    "new_clients NL R K key su cs (m(dc_id dc \<mapsto> dc)) = Ok m'"
    by (auto simp: gbind_eq_Ok)
  from Cons.IH [OF dc(2)] obtain dcs where
    "list_all2 (\<lambda>c dc. new_client NL R K key su c = Ok dc) cs dcs" "m' = table_of dcs (m(dc_id dc \<mapsto> dc))"
    by blast
  with dc(1) show ?case by (intro exI [of _ "dc # dcs"]) (simp add: table_of_def)
qed

lemma table_of_dom: "dom (table_of dcs m) = dom m \<union> dc_id ` set dcs"
  by (induction dcs arbitrary: m) (auto simp: table_of_def)

lemma table_of_from:
  "table_of dcs m i = Some dc \<Longrightarrow> m i = Some dc \<or> (dc \<in> set dcs \<and> dc_id dc = i)"
proof (induction dcs arbitrary: m)
  case (Cons d dcs)
  then have "table_of dcs (m(dc_id d \<mapsto> d)) i = Some dc" by (simp add: table_of_def)
  from Cons.IH [OF this] show ?case by (cases "dc_id d = i") auto
qed (simp add: table_of_def)

lemma table_of_in:
  "table_of dcs Map.empty i = Some dc \<Longrightarrow> dc \<in> set dcs \<and> dc_id dc = i"
  using table_of_from [of dcs Map.empty i dc] by simp

lemma NewSched_DORA:
  assumes "NewSched NL R A L K key loaded su = Ok s" and "Action su = actionDORA"
  shows "\<exists>cfgs dcs. genClientConfigurations A L su = Ok cfgs
    \<and> list_all2 (\<lambda>c dc. new_client NL R K key su c = Ok dc) cfgs dcs
    \<and> ClntList s = table_of dcs Map.empty
    \<and> nd_proxy s = (if EnableV6 su then Some (lla_list NL cfgs Map.empty) else None)"
proof -
  from assms obtain cfgs where g: "genClientConfigurations A L su = Ok cfgs"
    by (auto simp: NewSched_def split: gores.splits)
  with assms obtain m where m: "new_clients NL R K key su cfgs Map.empty = Ok m" "ClntList s = m"
    "nd_proxy s = (if EnableV6 su then Some (lla_list NL cfgs Map.empty) else None)"
    by (auto simp: NewSched_def gbind_eq_Ok)
  with new_clients_OkD [OF m(1)] g show ?thesis by blast
qed

text \<open>Distinct MAC addresses give distinct identifiers, whichever connection the key is from.\<close>

lemma new_client_key:
  assumes "new_client NL R K key su c = Ok dc" and "genClientConfigurations A L su = Ok cfgs"
    and "c \<in> set cfgs" and "EnableV4 su \<or> EnableV6 su"
  shows "\<exists>ec. ec_mac ec = Mac c \<and> getClientIDFromL2Key K (key ec) = Ok (dc_id dc)"
  using new_client_OkD(8) [OF assms(1)] genClientConfigurations_conns [OF assms(2,3)] assms(4)
  by (auto split: if_splits) (metis econn.select_convs(1))+

lemma new_client_ids_distinct:
  assumes "list_all2 (\<lambda>c dc. new_client NL R K key su c = Ok dc) cfgs dcs"
    and "genClientConfigurations A L su = Ok cfgs" and "EnableV4 su \<or> EnableV6 su"
    and "key_law K key" and "\<forall>c \<in> set cfgs. length (Mac c) = 6" and "distinct (map Mac cfgs)"
  shows "distinct (map dc_id dcs)"
proof -
  have l: "length dcs = length cfgs" using assms(1) by (simp add: list_all2_lengthD)
  have "dc_id (dcs ! i) \<noteq> dc_id (dcs ! j)" if ij: "i < length dcs" "j < length dcs" "i \<noteq> j" for i j
  proof
    assume e: "dc_id (dcs ! i) = dc_id (dcs ! j)"
    have n: "new_client NL R K key su (cfgs ! i) = Ok (dcs ! i)"
      "new_client NL R K key su (cfgs ! j) = Ok (dcs ! j)"
      using assms(1) ij l by (simp_all add: list_all2_conv_all_nth)
    have m: "cfgs ! i \<in> set cfgs" "cfgs ! j \<in> set cfgs" using ij l by simp_all
    from new_client_key [OF n(1) assms(2) m(1) assms(3)]
      new_client_key [OF n(2) assms(2) m(2) assms(3)]
    obtain ec ec' where k: "ec_mac ec = Mac (cfgs ! i)" "ec_mac ec' = Mac (cfgs ! j)"
      "getClientIDFromL2Key K (key ec) = getClientIDFromL2Key K (key ec')"
      by (metis e)
    have "key_ok K (key ec)" "key_ok K (key ec')" "take 6 (key ec) = ec_mac ec"
      "take 6 (key ec') = ec_mac ec'"
      using assms(4,5) m k(1,2) by (auto simp: key_law_def)
    with client_id_inj k have "Mac (cfgs ! i) = Mac (cfgs ! j)" by metis
    with assms(6) ij l show False by (simp add: distinct_conv_nth)
  qed
  then show ?thesis by (simp add: distinct_conv_nth)
qed

lemma gen_macs_ok:
  assumes "mac_law L" "genClientConfigurations A L su = Ok cfgs" "length (StartMAC su) = 6"
  shows "\<forall>c \<in> set cfgs. length (Mac c) = 6"
  using genClientConfigurations_macs(2) [OF assms(1,2)] assms(3) by (metis in_set_conv_nth)

section \<open>Properties\<close>

text \<open>Libraries for the applications of the properties.\<close>

definition example_lla :: "bytes \<Rightarrow> netip" where
  "example_lla m = V6Addr (word_of_int (0xFE80 * 2 ^ 112 + mac_value m))"

definition example_netlib :: netlib where
  "example_netlib = \<lparr>NewRUDPConn_ok = (\<lambda>_. True), NewClient4_ok = (\<lambda>_. True),
     NewClient6_ok = (\<lambda>_. True), GetLLAFromMac = example_lla\<rparr>"

definition example_ra :: ra_world where
  "example_ra = \<lparr>WriteRS_ok = (\<lambda>_. True), ReadPkt_nth = (\<lambda>c i. ReadTimedOut)\<rparr>"

definition example_sched_setup :: testSetup where
  "example_sched_setup = example_setup\<lparr>V6MsgType := MTRelayForward\<rparr>"

abbreviation example_sched :: "(sched_error, Sched) gores" where
  "example_sched \<equiv> NewSched example_netlib example_ra example_api example_lib example_key_const
     example_key None example_sched_setup"

lemma example_sched_ok: "example_sched = Ok (the_ok example_sched)"
proof -
  have "is_Ok example_sched" by code_simp
  then show ?thesis by simp
qed

lemma example_sched_fields:
  "Action example_sched_setup = actionDORA" "EnableV4 example_sched_setup"
  "EnableV6 example_sched_setup" "length (StartMAC example_sched_setup) = 6"
  "MacStep example_sched_setup \<noteq> 0" "num_clients example_sched_setup = 3"
  by code_simp+

lemma pad_length: "min a n + (n - a) = (n :: nat)" "min a n + (n - a + x) = n + (x :: nat)"
  by simp_all

lemma example_key_law: "key_law example_key_const example_key"
  unfolding key_law_def key_ok_def example_key_def example_key_const_def
  by (simp add: pad_length)

lemma mac_value_acc: "foldl (\<lambda>a b. a * 256 + uint (b :: byte)) v bs = v * 256 ^ length bs + mac_value bs"
proof (induction bs arbitrary: v)
  case (Cons b bs)
  from Cons.IH [of "v * 256 + uint b"] Cons.IH [of "uint b"] show ?case
    by (simp add: mac_value_def algebra_simps)
qed (simp add: mac_value_def)

lemma mac_value_Cons: "mac_value (b # bs) = uint b * 256 ^ length bs + mac_value bs"
  using mac_value_acc [of "uint b" bs] by (simp add: mac_value_def)

lemma mac_value_bound: "0 \<le> mac_value bs \<and> mac_value bs < 256 ^ length bs"
proof (induction bs)
  case (Cons b bs)
  let ?p = "256 ^ length bs :: int"
  have "(uint b + 1) * ?p \<le> 256 * ?p"
    using uint_byte_bounds [of b] by (intro mult_right_mono) simp_all
  then have "uint b * ?p + ?p \<le> 256 * ?p" by (simp only: distrib_right mult_1)
  moreover have "0 \<le> uint b * ?p" using uint_byte_bounds [of b] by simp
  ultimately show ?case
    unfolding mac_value_Cons length_Cons power_Suc using Cons by linarith
qed (simp add: mac_value_def)

lemma mac_value_inj: "length xs = length ys \<Longrightarrow> mac_value xs = mac_value ys \<Longrightarrow> xs = ys"
proof (induction xs ys rule: list_induct2)
  case (Cons x xs y ys)
  let ?p = "256 ^ length ys :: int"
  have e: "uint x * ?p + mac_value xs = uint y * ?p + mac_value ys"
    using Cons by (simp add: mac_value_Cons)
  have b: "0 \<le> mac_value xs" "mac_value xs < ?p" "0 \<le> mac_value ys" "mac_value ys < ?p"
    using mac_value_bound [of xs] mac_value_bound [of ys] Cons.hyps by simp_all
  have "(uint x * ?p + mac_value xs) div ?p = uint x"
    "(uint y * ?p + mac_value ys) div ?p = uint y"
    using b by (simp_all add: div_pos_pos_trivial)
  with e have "uint x = uint y" by simp
  with e Cons.IH show ?case by (simp add: word_uint_eq_iff)
qed simp

lemma example_lla_law: "lla_law example_netlib"
proof -
  let ?b = "0xFE80 * 2 ^ 112 :: int"
  have u: "uint (word_of_int (?b + mac_value m) :: 128 word) = ?b + mac_value m"
    if "length m = 6" for m
    unfolding uint_word_of_int
    using mac_value_bound [of m] that by (intro mod_pos_pos_trivial) simp_all
  have "m = m'" if h: "length m = 6" "length m' = 6" "example_lla m = example_lla m'" for m m'
  proof -
    have "(word_of_int (?b + mac_value m) :: 128 word) = word_of_int (?b + mac_value m')"
      using h(3) unfolding example_lla_def netip.inject .
    from arg_cong [OF this, of uint] have "?b + mac_value m = ?b + mac_value m'"
      unfolding u [OF h(1)] u [OF h(2)] .
    then have "mac_value m = mac_value m'" by simp
    with h(1,2) show ?thesis by (simp add: mac_value_inj)
  qed
  then show ?thesis by (auto simp: lla_law_def inj_on_def example_netlib_def)
qed

lemma NewSched_table:
  assumes "NewSched NL R A L K key loaded su = Ok s" and "Action su = actionDORA"
    and "mac_law L" and "key_law K key" and "length (StartMAC su) = 6" and "MacStep su \<noteq> 0"
    and "EnableV4 su \<or> EnableV6 su"
  shows "card (dom (ClntList s)) = num_clients su
    \<and> (\<forall>i dc. ClntList s i = Some dc \<longrightarrow> dc_id dc = i
         \<and> (d4 dc \<noteq> None) = EnableV4 su \<and> (d6 dc \<noteq> None) = EnableV6 su
         \<and> d4Lease dc = None \<and> d6Lease dc = None \<and> d4OtherClnt dc = None \<and> d6OtherClnt dc = None)"
proof -
  from NewSched_DORA [OF assms(1,2)] obtain cfgs dcs where g: "genClientConfigurations A L su = Ok cfgs"
    and a: "list_all2 (\<lambda>c dc. new_client NL R K key su c = Ok dc) cfgs dcs"
    and t: "ClntList s = table_of dcs Map.empty"
    by blast
  have "distinct (map dc_id dcs)"
    by (rule new_client_ids_distinct [OF a g assms(7,4) gen_macs_ok [OF assms(3) g assms(5)]
        genClientConfigurations_distinct [OF assms(3) g assms(6)]])
  then have "card (dom (ClntList s)) = length dcs"
    using distinct_card [of "map dc_id dcs"] by (simp add: t table_of_dom)
  then have 1: "card (dom (ClntList s)) = num_clients su"
    using genClientConfigurations_length [OF g] list_all2_lengthD [OF a] by simp
  have 2: "dc_id dc = i \<and> (d4 dc \<noteq> None) = EnableV4 su \<and> (d6 dc \<noteq> None) = EnableV6 su
         \<and> d4Lease dc = None \<and> d6Lease dc = None \<and> d4OtherClnt dc = None \<and> d6OtherClnt dc = None"
    if "ClntList s i = Some dc" for i dc
  proof -
    from table_of_in that t have "dc \<in> set dcs" "dc_id dc = i" by auto
    from list_all2_from [OF a this(1)] obtain c where
      c: "c \<in> set cfgs" "new_client NL R K key su c = Ok dc" by blast
    show ?thesis
      using new_client_OkD [OF c(2)] genClientConfigurations_conns [OF g c(1)] \<open>dc_id dc = i\<close>
      by simp
  qed
  from 1 2 show ?thesis by blast
qed



lemma lla_list_lookup:
  "inj_on (\<lambda>c. GetLLAFromMac NL (Mac c)) (set cs) \<Longrightarrow> distinct cs \<Longrightarrow>
   lla_list NL cs m a = (case find (\<lambda>c. GetLLAFromMac NL (Mac c) = a) cs of
      Some c \<Rightarrow> Some \<lparr>HwAddr = Mac c, Vlans = VLANs c\<rparr> | None \<Rightarrow> m a)"
proof (induction cs arbitrary: m)
  case (Cons c cs)
  have "find (\<lambda>d. GetLLAFromMac NL (Mac d) = a) cs = None" if "GetLLAFromMac NL (Mac c) = a"
    using Cons.prems that by (force simp: find_None_iff inj_on_def)
  with Cons.IH Cons.prems show ?case
    by (auto simp: inj_on_insert split: option.splits)
qed simp

text \<open>
  C34: with DHCPv6 enabled the neighbour discovery proxy answers a solicitation exactly when its
  target is the link-local address of one of the clients, and then with that client's own MAC
  address, on its VLAN tags, back to the asking station.
\<close>

theorem nd_proxy_answers:
  assumes "NewSched NL R A L K key loaded su = Ok s" and "Action su = actionDORA" and "EnableV6 su"
    and "genClientConfigurations A L su = Ok cfgs"
    and "mac_law L" and "lla_law NL" and "length (StartMAC su) = 6" and "MacStep su \<noteq> 0"
  shows "\<exists>t. nd_proxy s = Some t
    \<and> (processReq t pkt peermac \<noteq> None \<longleftrightarrow>
         (\<exists>c \<in> set cfgs. nd_target pkt = Some (GetLLAFromMac NL (Mac c))))
    \<and> (\<forall>c \<in> set cfgs. nd_target pkt = Some (GetLLAFromMac NL (Mac c)) \<longrightarrow>
         processReq t pkt peermac =
           Some \<lparr>na_target = GetLLAFromMac NL (Mac c), na_flags = 64, na_lladdr = Mac c,
             na_src = GetLLAFromMac NL (Mac c), na_dst = nd_src pkt, na_hoplimit = 255,
             na_frame_src = Mac c, na_frame_dst = peermac, na_vlans = VLANs c\<rparr>)"
proof -
  let ?t = "lla_list NL cfgs Map.empty"
  have n: "nd_proxy s = Some ?t"
    using NewSched_DORA [OF assms(1,2)] assms(3,4) by auto
  have d: "distinct (map Mac cfgs)"
    by (rule genClientConfigurations_distinct [OF assms(5,4,8)])
  then have "inj_on Mac (set cfgs)" "distinct cfgs" by (simp_all add: distinct_map)
  moreover have "Mac ` set cfgs \<subseteq> {m. length m = 6}"
    using gen_macs_ok [OF assms(5,4,7)] by auto
  ultimately have inj: "inj_on (\<lambda>c. GetLLAFromMac NL (Mac c)) (set cfgs)" "distinct cfgs"
    using assms(6) comp_inj_on [of Mac "set cfgs" "GetLLAFromMac NL"]
    by (auto simp: lla_law_def comp_def intro: inj_on_subset)
  have hit: "?t (GetLLAFromMac NL (Mac c)) = Some \<lparr>HwAddr = Mac c, Vlans = VLANs c\<rparr>"
    if "c \<in> set cfgs" for c
  proof -
    let ?P = "\<lambda>d. GetLLAFromMac NL (Mac d) = GetLLAFromMac NL (Mac c)"
    from that have "find ?P cfgs \<noteq> None" by (auto simp: find_None_iff)
    then obtain c' where f: "find ?P cfgs = Some c'" by blast
    then have "c' \<in> set cfgs" "?P c'" by (auto simp: find_Some_iff)
    with inj(1) that have "c' = c" by (auto dest: inj_onD)
    with f show ?thesis by (simp add: lla_list_lookup [OF inj])
  qed
  have miss: "?t a = None" if "\<forall>c \<in> set cfgs. a \<noteq> GetLLAFromMac NL (Mac c)" for a
  proof -
    from that have "find (\<lambda>c. GetLLAFromMac NL (Mac c) = a) cfgs = None"
      by (auto simp: find_None_iff)
    then show ?thesis by (simp add: lla_list_lookup [OF inj])
  qed
  show ?thesis
  proof (intro exI conjI)
    show "nd_proxy s = Some ?t" by (rule n)
    show "processReq ?t pkt peermac \<noteq> None \<longleftrightarrow>
        (\<exists>c \<in> set cfgs. nd_target pkt = Some (GetLLAFromMac NL (Mac c)))"
      using hit miss by (auto simp: processReq_def split: option.splits) (metis option.distinct(1))
    show "\<forall>c \<in> set cfgs. nd_target pkt = Some (GetLLAFromMac NL (Mac c)) \<longrightarrow>
         processReq ?t pkt peermac =
           Some \<lparr>na_target = GetLLAFromMac NL (Mac c), na_flags = 64, na_lladdr = Mac c,
             na_src = GetLLAFromMac NL (Mac c), na_dst = nd_src pkt, na_hoplimit = 255,
             na_frame_src = Mac c, na_frame_dst = peermac, na_vlans = VLANs c\<rparr>"
      using hit by (simp add: processReq_def)
  qed
qed

theorem nd_proxy_answers_witness:
  "\<exists>t. nd_proxy (the_ok example_sched) = Some t
     \<and> processReq t \<lparr>nd_src = V6Addr 9, nd_target = Some (V6Addr 9)\<rparr> [1] = None"
proof -
  have g: "genClientConfigurations example_api example_lib example_sched_setup
      = Ok (the_ok (genClientConfigurations example_api example_lib example_sched_setup))"
  proof -
    have "is_Ok (genClientConfigurations example_api example_lib example_sched_setup)" by code_simp
    then show ?thesis by simp
  qed
  have "\<not> (\<exists>c \<in> set (the_ok (genClientConfigurations example_api example_lib example_sched_setup)).
      V6Addr 9 = GetLLAFromMac example_netlib (Mac c))"
    by code_simp
  with nd_proxy_answers [OF example_sched_ok example_sched_fields(1,3) g example_mac_law
      example_lla_law example_sched_fields(4,5),
      of "\<lparr>nd_src = V6Addr 9, nd_target = Some (V6Addr 9)\<rparr>" "[1]"]
  show ?thesis by auto
qed


definition example_leased :: DClient where
  "example_leased = example_dc\<lparr>d4Lease := Some (newV4Lease\<lparr>Lease4 := Some example_lease4\<rparr>)\<rparr>"


end
