(* ===== verification/Sched.thy ===== *)
theory Sched
  imports Clients
begin

text \<open>
  The scheduler (\<open>sched.go\<close>): what \<open>dialAll\<close> and \<open>threeRAll\<close> start for one client,
  and \<open>run\<close> without flapping as a machine of goroutines: the main one, one per client, one
  per transaction, the collector of results and the saver of leases, with the wait groups and
  channels between them.
\<close>

section \<open>The transactions of one client\<close>

text \<open>
  A transaction's goroutine as a list of effects; a panic in it ends the whole program. Of a
  client's goroutine: the transactions it starts, in order, and whether it waits for them.
\<close>

datatype act = Do ev | Crash

type_synonym script = "act list"

definition script_of :: "DClient \<times> ev list \<times> (dial_error, unit) gores \<Rightarrow> script" where
  "script_of p = (case p of (dc, evs, r) \<Rightarrow> map Do evs @ (if r = Panic then [Crash] else []))"

record client_run =
  cr_scripts :: "script list"
  cr_waits :: bool

definition ordered :: "testSetup \<Rightarrow> 'a list \<Rightarrow> 'a list \<Rightarrow> 'a list" where
  "ordered su v4s v6s = (if StackDelay su \<ge> 0 then v4s @ v6s else v6s @ v4s)"

definition dialAll :: "world \<Rightarrow> testSetup \<Rightarrow> DClient \<Rightarrow> client_run" where
  "dialAll W su dc =
     \<lparr>cr_scripts = ordered su
        (if d4 dc \<noteq> None then [script_of (dialv4 W su dc)] else [])
        (if d6 dc \<noteq> None then [script_of (dialv6 W su dc)] else []),
      cr_waits = (d4 dc \<noteq> None \<or> d6 dc \<noteq> None)\<rparr>"

text \<open>
  \<open>threeRAll\<close> first gives the client connections for its leases: the lease of an enabled
  protocol is dereferenced unchecked. A failure to make a DHCP client ends the program.
\<close>

definition three_conns :: "testSetup \<Rightarrow> DClient \<Rightarrow> (sched_error, DClient) gores" where
  "three_conns su dc =
     gbind (if EnableV4 su then
              (case d4Lease dc of
                 None \<Rightarrow> Panic
               | Some l \<Rightarrow>
                   (case Lease4 l of
                      None \<Rightarrow> Panic
                    | Some dl \<Rightarrow> Ok (dc\<lparr>cfg := (cfg dc)\<lparr>v4econn :=
                        Some \<lparr>ec_mac = ClientHWAddr (ACK dl), ec_vlans = VLANList l,
                              ec_etypes = [EthernetTypeIPv4]\<rparr>\<rparr>\<rparr>)))
            else Ok dc) (\<lambda>dc.
     if EnableV6 su then
       (case d6Lease dc of
          None \<Rightarrow> Panic
        | Some l \<Rightarrow> Ok (dc\<lparr>cfg := (cfg dc)\<lparr>v6econn :=
            Some \<lparr>ec_mac = MAC6 l, ec_vlans = VLANList6 l, ec_etypes = [EthernetTypeIPv6]\<rparr>\<rparr>\<rparr>))
     else Ok dc)"

definition fatal :: "(sched_error, 'a) gores \<Rightarrow> (sched_error, 'a) gores" where
  "fatal r = (case r of Fail e \<Rightarrow> Fail FatalExit | _ \<Rightarrow> r)"

definition three_clients :: "netlib \<Rightarrow> v4api \<Rightarrow> testSetup \<Rightarrow> actionType \<Rightarrow> DClient
    \<Rightarrow> (sched_error, DClient) gores" where
  "three_clients NL B su act dc =
     gbind (if d4Lease dc \<noteq> None \<and> EnableV4 su then fatal (createV4OtherClnt NL B su act dc)
            else Ok dc) (\<lambda>dc.
     if d6Lease dc \<noteq> None \<and> EnableV6 su then fatal (createV6OtherClnt NL su dc) else Ok dc)"

definition three_v4 :: "world \<Rightarrow> testSetup \<Rightarrow> actionType \<Rightarrow> DClient \<Rightarrow> script" where
  "three_v4 W su act dc =
     (case act of
        actionRelease \<Rightarrow> script_of (releasev4 W True dc)
      | actionRenew \<Rightarrow> script_of (renewOrRebindv4 W su True act dc)
      | actionRebind \<Rightarrow> script_of (renewOrRebindv4 W su True act dc)
      | _ \<Rightarrow> [])"

definition three_v6 :: "world \<Rightarrow> actionType \<Rightarrow> DClient \<Rightarrow> script" where
  "three_v6 W act dc =
     script_of (releaseOrRenewV6 W True (if act = actionRenew then MTRenew else MTRelease) dc)"

definition threeRAll :: "world \<Rightarrow> netlib \<Rightarrow> testSetup \<Rightarrow> actionType \<Rightarrow> DClient
    \<Rightarrow> (sched_error, client_run) gores" where
  "threeRAll W NL su act dc =
     gbind (three_conns su dc) (\<lambda>dc.
     gbind (three_clients NL (w_v4 W) su act dc) (\<lambda>dc.
       Ok \<lparr>cr_scripts = ordered su
             (if d4OtherClnt dc \<noteq> None then [three_v4 W su act dc] else [])
             (if d6OtherClnt dc \<noteq> None then [three_v6 W act dc] else []),
           cr_waits = (d4 dc \<noteq> None \<or> d6 dc \<noteq> None)\<rparr>))"

section \<open>The goroutines of \<open>run\<close>\<close>

text \<open>
  A client's goroutine: the transactions it has still to start, the running ones with what they
  have left to do, its wait group's counter, whether it waits on it and whether it has ended.
\<close>

record cthread =
  ct_todo :: "script list"
  ct_live :: "script list"
  ct_wg :: nat
  ct_waits :: bool
  ct_done :: bool

datatype phase = MStart | MWait | MCancel | MSaverWait | MClose | MJoin | MDone

text \<open>
  The whole: the clients the main loop has still to start, the started ones, the main wait group,
  the channel of results and those of leases, what the collector has taken and whether it has
  ended, what the saver has taken, whether it runs and has been cancelled, the place of the main
  goroutine, and whether a panic has ended the program. \<open>saving\<close> is whether a saver was started.
\<close>

record sys =
  pending :: "client_run list"
  threads :: "cthread list"
  main_wg :: nat
  rchan :: "dialResult gochan"
  s4chan :: "saved gochan option"
  s6chan :: "saved gochan option"
  collected :: "dialResult list"
  collector_ended :: bool
  saving :: bool
  saver_on :: bool
  cancelled :: bool
  stored :: "saved list"
  main_at :: phase
  crashed :: bool

definition dialResultChanLen :: nat where "dialResultChanLen = 1024"

definition start_sys :: "testSetup \<Rightarrow> client_run list \<Rightarrow> sys" where
  "start_sys su crs =
     \<lparr>pending = crs, threads = [], main_wg = 0, rchan = make_chan dialResultChanLen,
      s4chan = map_option make_chan (saveV4Chan su), s6chan = map_option make_chan (saveV6Chan su),
      collected = [], collector_ended = False,
      saving = (Action su = actionDORA \<and> SaveLease su),
      saver_on = (Action su = actionDORA \<and> SaveLease su), cancelled = False, stored = [],
      main_at = MStart, crashed = False\<rparr>"

definition new_thread :: "client_run \<Rightarrow> cthread" where
  "new_thread cr = \<lparr>ct_todo = cr_scripts cr, ct_live = [], ct_wg = 0, ct_waits = cr_waits cr,
     ct_done = False\<rparr>"

text \<open>
  One effect of a transaction of the \<open>i\<close>-th client; \<open>None\<close> is a send that blocks (a
  nil channel blocks for ever), a send on a closed channel and a wait group's counter below zero
  panic.
\<close>

definition upd :: "nat \<Rightarrow> (cthread \<Rightarrow> cthread) \<Rightarrow> sys \<Rightarrow> sys" where
  "upd i f s = s\<lparr>threads := (threads s)[i := f (threads s ! i)]\<rparr>"

fun do_ev :: "nat \<Rightarrow> ev \<Rightarrow> sys \<Rightarrow> sys option" where
  "do_ev i (EvResult r) s =
     (case chan_send (rchan s) r of
        Sent c \<Rightarrow> Some (s\<lparr>rchan := c\<rparr>)
      | SendBlocks \<Rightarrow> None
      | SendPanics \<Rightarrow> Some (s\<lparr>crashed := True\<rparr>))"
| "do_ev i (EvSave (Saved4 k l)) s =
     (case s4chan s of
        None \<Rightarrow> None
      | Some ch \<Rightarrow>
          (case chan_send ch (Saved4 k l) of
             Sent c \<Rightarrow> Some (s\<lparr>s4chan := Some c\<rparr>)
           | SendBlocks \<Rightarrow> None
           | SendPanics \<Rightarrow> Some (s\<lparr>crashed := True\<rparr>)))"
| "do_ev i (EvSave (Saved6 k l)) s =
     (case s6chan s of
        None \<Rightarrow> None
      | Some ch \<Rightarrow>
          (case chan_send ch (Saved6 k l) of
             Sent c \<Rightarrow> Some (s\<lparr>s6chan := Some c\<rparr>)
           | SendBlocks \<Rightarrow> None
           | SendPanics \<Rightarrow> Some (s\<lparr>crashed := True\<rparr>)))"
| "do_ev i EvDone s =
     (if ct_wg (threads s ! i) = 0 then Some (s\<lparr>crashed := True\<rparr>)
      else Some (upd i (\<lambda>t. t\<lparr>ct_wg := ct_wg t - 1\<rparr>) s))"
| "do_ev i _ s = Some s"

datatype move =
    StartClient | AllStarted | Spawn nat | Act nat nat | ClientDone nat | MainNext
  | Collect | Save4 | Save6 | SaverStop

definition recv_save :: "saved gochan option \<Rightarrow> (saved \<times> saved gochan) option" where
  "recv_save ch =
     (case ch of
        None \<Rightarrow> None
      | Some c \<Rightarrow> (case chan_recv c of Recv l c' \<Rightarrow> Some (l, c') | _ \<Rightarrow> None))"

text \<open>The main goroutine after its loop: waiting, stopping the saver, closing, joining.\<close>

definition main_next :: "sys \<Rightarrow> sys option" where
  "main_next s =
     (case main_at s of
        MStart \<Rightarrow> None
      | MWait \<Rightarrow>
          if main_wg s = 0 then Some (s\<lparr>main_at := (if saving s then MCancel else MClose)\<rparr>)
          else None
      | MCancel \<Rightarrow> Some (s\<lparr>cancelled := True, main_at := MSaverWait\<rparr>)
      | MSaverWait \<Rightarrow> if saver_on s then None else Some (s\<lparr>main_at := MClose\<rparr>)
      | MClose \<Rightarrow>
          (case chan_close (rchan s) of
             Ok c \<Rightarrow> Some (s\<lparr>rchan := c, main_at := MJoin\<rparr>)
           | _ \<Rightarrow> Some (s\<lparr>crashed := True\<rparr>))
      | MJoin \<Rightarrow> if collector_ended s then Some (s\<lparr>main_at := MDone\<rparr>) else None
      | MDone \<Rightarrow> None)"

fun sys_move :: "move \<Rightarrow> sys \<Rightarrow> sys option" where
  "sys_move StartClient s =
     (case pending s of
        cr # crs \<Rightarrow>
          if main_at s = MStart
          then Some (s\<lparr>pending := crs, threads := threads s @ [new_thread cr],
                       main_wg := main_wg s + 1\<rparr>)
          else None
      | [] \<Rightarrow> None)"
| "sys_move AllStarted s =
     (if main_at s = MStart \<and> pending s = [] then Some (s\<lparr>main_at := MWait\<rparr>) else None)"
| "sys_move (Spawn i) s =
     (if i < length (threads s) \<and> \<not> ct_done (threads s ! i) then
        (case ct_todo (threads s ! i) of
           [] \<Rightarrow> None
         | sc # scs \<Rightarrow> Some (upd i (\<lambda>t. t\<lparr>ct_todo := scs, ct_live := ct_live t @ [sc],
                                         ct_wg := ct_wg t + 1\<rparr>) s))
      else None)"
| "sys_move (Act i j) s =
     (if i < length (threads s) \<and> j < length (ct_live (threads s ! i)) then
        (case ct_live (threads s ! i) ! j of
           [] \<Rightarrow> None
         | Do e # es \<Rightarrow>
             do_ev i e (upd i (\<lambda>t. t\<lparr>ct_live := (ct_live t)[j := es]\<rparr>) s)
         | Crash # es \<Rightarrow> Some (s\<lparr>crashed := True\<rparr>))
      else None)"
| "sys_move (ClientDone i) s =
     (if i < length (threads s) \<and> \<not> ct_done (threads s ! i) \<and> ct_todo (threads s ! i) = []
         \<and> (\<not> ct_waits (threads s ! i) \<or> ct_wg (threads s ! i) = 0)
      then Some ((upd i (\<lambda>t. t\<lparr>ct_done := True\<rparr>) s)\<lparr>main_wg := main_wg s - 1\<rparr>)
      else None)"
| "sys_move MainNext s = main_next s"
| "sys_move Collect s =
     (if collector_ended s then None
      else case chan_recv (rchan s) of
        Recv r c \<Rightarrow> Some (s\<lparr>rchan := c, collected := collected s @ [r]\<rparr>)
      | RecvZero \<Rightarrow> Some (s\<lparr>collector_ended := True\<rparr>)
      | RecvBlocks \<Rightarrow> None)"
| "sys_move Save4 s =
     (if saver_on s then
        (case recv_save (s4chan s) of
           None \<Rightarrow> None
         | Some (l, c) \<Rightarrow> Some (s\<lparr>s4chan := Some c, stored := stored s @ [l]\<rparr>))
      else None)"
| "sys_move Save6 s =
     (if saver_on s then
        (case recv_save (s6chan s) of
           None \<Rightarrow> None
         | Some (l, c) \<Rightarrow> Some (s\<lparr>s6chan := Some c, stored := stored s @ [l]\<rparr>))
      else None)"
| "sys_move SaverStop s =
     (if saver_on s \<and> cancelled s then Some (s\<lparr>saver_on := False\<rparr>) else None)"

text \<open>Nothing moves once the program has panicked or its main goroutine has returned.\<close>

inductive sys_step :: "sys \<Rightarrow> sys \<Rightarrow> bool" where
  move: "\<not> crashed s \<Longrightarrow> main_at s \<noteq> MDone \<Longrightarrow> sys_move m s = Some t \<Longrightarrow> sys_step s t"

inductive_cases sys_stepE: "sys_step s t"

fun run_moves :: "move list \<Rightarrow> sys \<Rightarrow> sys option" where
  "run_moves [] s = Some s"
| "run_moves (m # ms) s =
     (if crashed s \<or> main_at s = MDone then None
      else case sys_move m s of None \<Rightarrow> None | Some t \<Rightarrow> run_moves ms t)"

lemma run_moves_reach: "run_moves ms s = Some t \<Longrightarrow> sys_step\<^sup>*\<^sup>* s t"
proof (induction ms arbitrary: s)
  case (Cons m ms)
  then obtain u where "\<not> crashed s" "main_at s \<noteq> MDone" "sys_move m s = Some u"
    "run_moves ms u = Some t"
    by (auto split: if_splits option.splits)
  with Cons.IH show ?case by (meson converse_rtranclp_into_rtranclp sys_step.move)
qed simp

section \<open>Accounting: what is still to happen\<close>

text \<open>
  The sum, over all transactions not yet finished, of a weight of their effects. A move that
  performs an effect takes its weight off; every other move leaves the sum alone.
\<close>

definition script_load :: "(act \<Rightarrow> 'm::cancel_comm_monoid_add) \<Rightarrow> script \<Rightarrow> 'm" where
  "script_load w sc = sum_list (map w sc)"

definition scripts_load :: "(act \<Rightarrow> 'm::cancel_comm_monoid_add) \<Rightarrow> script list \<Rightarrow> 'm" where
  "scripts_load w scs = sum_list (map (script_load w) scs)"

definition thread_load :: "(act \<Rightarrow> 'm::cancel_comm_monoid_add) \<Rightarrow> cthread \<Rightarrow> 'm" where
  "thread_load w t = scripts_load w (ct_todo t) + scripts_load w (ct_live t)"

definition load :: "(act \<Rightarrow> 'm::cancel_comm_monoid_add) \<Rightarrow> sys \<Rightarrow> 'm" where
  "load w s = sum_list (map (scripts_load w \<circ> cr_scripts) (pending s))
              + sum_list (map (thread_load w) (threads s))"

lemma scripts_load_simps [simp]:
  "scripts_load w [] = 0" "scripts_load w (sc # scs) = script_load w sc + scripts_load w scs"
  "scripts_load w (xs @ ys) = scripts_load w xs + scripts_load w ys"
  "script_load w [] = 0" "script_load w (a # sc) = w a + script_load w sc"
  by (simp_all add: scripts_load_def script_load_def)

lemma scripts_load_update:
  "j < length scs \<Longrightarrow>
     scripts_load w (scs[j := sc]) + script_load w (scs ! j) = scripts_load w scs + script_load w sc"
  unfolding scripts_load_def by (rule sum_list_update_add)

lemma load_upd:
  assumes "i < length (threads s)"
  shows "load w (upd i f s) + thread_load w (threads s ! i)
    = load w s + thread_load w (f (threads s ! i))"
  using sum_list_update_add [OF assms, of "thread_load w"]
  by (simp add: load_def upd_def add.assoc)

lemma load_upd_same:
  assumes "i < length (threads s)"
    and "thread_load w (f (threads s ! i)) = thread_load w (threads s ! i)"
  shows "load w (upd i f s) = load w s"
  using load_upd [OF assms(1), of w f] assms(2) by simp

lemma load_cong:
  "pending s = pending t \<Longrightarrow> threads s = threads t \<Longrightarrow> load w s = load w t"
  by (simp add: load_def)

lemma upd_sel [simp]:
  "pending (upd i f s) = pending s" "main_wg (upd i f s) = main_wg s" "rchan (upd i f s) = rchan s"
  "s4chan (upd i f s) = s4chan s" "s6chan (upd i f s) = s6chan s" "collected (upd i f s) = collected s"
  "collector_ended (upd i f s) = collector_ended s" "saving (upd i f s) = saving s"
  "saver_on (upd i f s) = saver_on s" "cancelled (upd i f s) = cancelled s"
  "stored (upd i f s) = stored s" "main_at (upd i f s) = main_at s" "crashed (upd i f s) = crashed s"
  "length (threads (upd i f s)) = length (threads s)"
  "threads (upd i f s) = (threads s)[i := f (threads s ! i)]"
  by (simp_all add: upd_def)

lemma load_spawn:
  assumes "sys_move (Spawn i) s = Some t"
  shows "load w t = load w s"
proof -
  from assms obtain sc scs where *: "i < length (threads s)" "ct_todo (threads s ! i) = sc # scs"
    "t = upd i (\<lambda>t. t\<lparr>ct_todo := scs, ct_live := ct_live t @ [sc], ct_wg := ct_wg t + 1\<rparr>) s"
    by (auto split: if_splits list.splits)
  show ?thesis
    unfolding *(3) by (rule load_upd_same [OF *(1)]) (simp add: thread_load_def *(2) ac_simps)
qed

lemma add_cancel_end:
  fixes x :: "'m::cancel_comm_monoid_add"
  shows "x + (a + e) = y + e \<Longrightarrow> x + a = y"
  by (metis add.assoc add_right_cancel)

lemma load_pop:
  assumes "i < length (threads s)" "j < length (ct_live (threads s ! i))"
    and "ct_live (threads s ! i) ! j = a # es"
  shows "load w (upd i (\<lambda>t. t\<lparr>ct_live := (ct_live t)[j := es]\<rparr>) s) + w a = load w s"
proof -
  let ?f = "\<lambda>t. t\<lparr>ct_live := (ct_live t)[j := es]\<rparr>" and ?t = "threads s ! i"
  have "scripts_load w ((ct_live ?t)[j := es]) + w a = scripts_load w (ct_live ?t)"
    using scripts_load_update [OF assms(2), of w es] assms(3) by (auto intro: add_cancel_end)
  then have p: "thread_load w (?f ?t) + w a = thread_load w ?t"
    by (simp add: thread_load_def add.assoc)
  have "load w (upd i ?f s) + (w a + thread_load w (?f ?t)) = load w (upd i ?f s) + thread_load w ?t"
    unfolding p [symmetric] by (simp only: add.commute)
  also have "\<dots> = load w s + thread_load w (?f ?t)" by (rule load_upd [OF assms(1)])
  finally show ?thesis by (rule add_cancel_end)
qed

lemma load_start:
  assumes "sys_move StartClient s = Some t"
  shows "load w t = load w s"
  using assms
  by (auto simp: load_def new_thread_def thread_load_def ac_simps split: list.splits if_splits)

lemma load_done:
  assumes "sys_move (ClientDone i) s = Some t"
  shows "load w t = load w s"
proof -
  from assms have i: "i < length (threads s)"
    and t: "t = (upd i (\<lambda>t. t\<lparr>ct_done := True\<rparr>) s)\<lparr>main_wg := main_wg s - 1\<rparr>"
    by (auto split: if_splits)
  have "load w t = load w (upd i (\<lambda>t. t\<lparr>ct_done := True\<rparr>) s)"
    by (rule load_cong) (simp_all add: t)
  also have "\<dots> = load w s" by (rule load_upd_same [OF i]) (simp add: thread_load_def)
  finally show ?thesis .
qed

lemma main_next_frame:
  assumes "main_next s = Some t"
  shows "pending t = pending s" "threads t = threads s" "main_wg t = main_wg s"
    "collected t = collected s" "s4chan t = s4chan s" "s6chan t = s6chan s" "stored t = stored s"
    "collector_ended t = collector_ended s" "saving t = saving s" "saver_on t = saver_on s"
    "cbuf (rchan t) = cbuf (rchan s)" "ccap (rchan t) = ccap (rchan s)"
  using assms
  by (auto simp: main_next_def chan_close_def split: phase.splits if_splits)

lemma other_frame:
  assumes "sys_move m s = Some t" and "m \<in> {AllStarted, MainNext, Collect, Save4, Save6, SaverStop}"
  shows "pending t = pending s" "threads t = threads s" "main_wg t = main_wg s"
  using assms
  by (auto simp: main_next_frame split: if_splits option.splits recvres.splits)

lemma load_other:
  assumes "sys_move m s = Some t" and "m \<in> {AllStarted, MainNext, Collect, Save4, Save6, SaverStop}"
  shows "load w t = load w s"
  by (rule load_cong) (simp_all add: other_frame [OF assms])

lemma do_ev_load:
  assumes "do_ev i e s = Some t" and "i < length (threads s)"
  shows "load w t = load w s"
proof -
  have "load w (upd i (\<lambda>t. t\<lparr>ct_wg := ct_wg t - 1\<rparr>) s) = load w s"
    by (rule load_upd_same [OF assms(2)]) (simp add: thread_load_def)
  with assms(1) show ?thesis
    by (cases "(i, e, s)" rule: do_ev.cases)
      (auto intro: load_cong split: sendres.splits option.splits if_splits)
qed

text \<open>Taking the head off a running transaction.\<close>

abbreviation popped_sys :: "nat \<Rightarrow> nat \<Rightarrow> script \<Rightarrow> sys \<Rightarrow> sys" where
  "popped_sys i j es s \<equiv> upd i (\<lambda>t. t\<lparr>ct_live := (ct_live t)[j := es]\<rparr>) s"

lemma act_move:
  assumes "sys_move (Act i j) s = Some t"
  shows "\<exists>a es. i < length (threads s) \<and> j < length (ct_live (threads s ! i))
    \<and> ct_live (threads s ! i) ! j = a # es
    \<and> (case a of Crash \<Rightarrow> t = s\<lparr>crashed := True\<rparr> | Do e \<Rightarrow> do_ev i e (popped_sys i j es s) = Some t)"
  using assms by (auto split: if_splits list.splits act.splits)

section \<open>Transactions that keep the protocol of a wait group\<close>

text \<open>
  What is left of a transaction: nothing, or effects of which the last but one is its result and
  the last its \<open>Done\<close>. The flags say whether the channels of leases exist.
\<close>

fun tail_ok :: "bool \<Rightarrow> bool \<Rightarrow> script \<Rightarrow> bool" where
  "tail_ok c4 c6 [] = True"
| "tail_ok c4 c6 (Crash # es) = False"
| "tail_ok c4 c6 (Do (EvResult r) # es) = (es = [Do EvDone])"
| "tail_ok c4 c6 (Do EvDone # es) = (es = [])"
| "tail_ok c4 c6 (Do (EvSave (Saved4 k l)) # es) = (c4 \<and> es \<noteq> [] \<and> tail_ok c4 c6 es)"
| "tail_ok c4 c6 (Do (EvSave (Saved6 k l)) # es) = (c6 \<and> es \<noteq> [] \<and> tail_ok c4 c6 es)"
| "tail_ok c4 c6 (Do e # es) = (es \<noteq> [] \<and> tail_ok c4 c6 es)"

fun done_w :: "act \<Rightarrow> nat" where
  "done_w (Do EvDone) = 1"
| "done_w _ = 0"

lemma tail_ok_done: "tail_ok c4 c6 sc \<Longrightarrow> script_load done_w sc = (if sc = [] then 0 else 1)"
  by (induction c4 c6 sc rule: tail_ok.induct) auto

lemma tail_ok_pop: "tail_ok c4 c6 (a # es) \<Longrightarrow> tail_ok c4 c6 es"
  by (cases "(c4, c6, a # es)" rule: tail_ok.cases) auto

definition saves_allowed :: "bool \<Rightarrow> bool \<Rightarrow> ev list \<Rightarrow> bool" where
  "saves_allowed c4 c6 evs \<longleftrightarrow>
     (\<forall>l \<in> set (saves evs). case l of Saved4 _ _ \<Rightarrow> c4 | Saved6 _ _ \<Rightarrow> c6)"

lemma script_ok_tail:
  assumes "script_ok evs" and "saves_allowed c4 c6 evs"
  shows "tail_ok c4 c6 (map Do evs)" "map Do evs \<noteq> []"
proof -
  from assms(1) obtain pre t r where p: "plain pre" "evs = pre @ [EvNow t, EvResult r, EvDone]"
    by (auto simp: script_ok_def)
  have "tail_ok c4 c6 (map Do (pre @ [EvNow t, EvResult r, EvDone]))"
    if "plain pre" "saves_allowed c4 c6 pre" for pre
    using that
  proof (induction pre)
    case (Cons e pre)
    then have "plain pre" "saves_allowed c4 c6 pre"
      by (cases e; auto simp: plain_def saves_allowed_def)+
    with Cons show ?case
      by (cases e) (auto simp: plain_def saves_allowed_def split: saved.splits)
  qed simp
  with p assms(2) show "tail_ok c4 c6 (map Do evs)" by (simp add: saves_allowed_def)
  show "map Do evs \<noteq> []" using p by simp
qed

definition run_ok :: "bool \<Rightarrow> bool \<Rightarrow> client_run \<Rightarrow> bool" where
  "run_ok c4 c6 cr \<longleftrightarrow>
     (\<forall>sc \<in> set (cr_scripts cr). tail_ok c4 c6 sc \<and> sc \<noteq> [])
     \<and> (cr_scripts cr \<noteq> [] \<longrightarrow> cr_waits cr)"

definition thread_ok :: "bool \<Rightarrow> bool \<Rightarrow> cthread \<Rightarrow> bool" where
  "thread_ok c4 c6 t \<longleftrightarrow>
     (\<forall>sc \<in> set (ct_todo t). tail_ok c4 c6 sc \<and> sc \<noteq> [])
     \<and> (\<forall>sc \<in> set (ct_live t). tail_ok c4 c6 sc)
     \<and> ct_wg t = scripts_load done_w (ct_live t)
     \<and> (ct_todo t \<noteq> [] \<or> ct_live t \<noteq> [] \<longrightarrow> ct_waits t)
     \<and> (ct_done t \<longrightarrow> ct_todo t = [] \<and> ct_wg t = 0)"

lemma new_thread_ok: "run_ok c4 c6 cr \<Longrightarrow> thread_ok c4 c6 (new_thread cr)"
  by (simp add: run_ok_def thread_ok_def new_thread_def)

lemma done_live_empty:
  assumes "\<forall>sc \<in> set scs. tail_ok c4 c6 sc"
  shows "scripts_load done_w scs = 0 \<longleftrightarrow> (\<forall>sc \<in> set scs. sc = [])"
  using assms by (induction scs) (auto simp: tail_ok_done split: if_splits)

section \<open>The invariant\<close>

definition open_w :: "cthread \<Rightarrow> nat" where
  "open_w t = (if ct_done t then 0 else 1)"

definition threads_inv :: "bool \<Rightarrow> bool \<Rightarrow> sys \<Rightarrow> bool" where
  "threads_inv c4 c6 s \<longleftrightarrow>
     (\<forall>t \<in> set (threads s). thread_ok c4 c6 t)
     \<and> (\<forall>cr \<in> set (pending s). run_ok c4 c6 cr)
     \<and> main_wg s = sum_list (map open_w (threads s))"

definition main_inv :: "sys \<Rightarrow> bool" where
  "main_inv s \<longleftrightarrow>
     (main_at s \<noteq> MStart \<longrightarrow> pending s = [])
     \<and> (main_at s \<notin> {MStart, MWait} \<longrightarrow> main_wg s = 0)
     \<and> cclosed (rchan s) = (main_at s \<in> {MJoin, MDone})
     \<and> (collector_ended s \<longrightarrow> cclosed (rchan s) \<and> cbuf (rchan s) = [])
     \<and> (main_at s = MDone \<longrightarrow> collector_ended s)
     \<and> 0 < ccap (rchan s)"

definition chan_there :: "bool \<Rightarrow> saved gochan option \<Rightarrow> bool" where
  "chan_there c ch \<longleftrightarrow> (c \<longrightarrow> (\<exists>q. ch = Some q \<and> 0 < ccap q \<and> \<not> cclosed q))"

definition saver_inv :: "bool \<Rightarrow> bool \<Rightarrow> sys \<Rightarrow> bool" where
  "saver_inv c4 c6 s \<longleftrightarrow>
     chan_there c4 (s4chan s) \<and> chan_there c6 (s6chan s) \<and> (c4 \<or> c6 \<longrightarrow> saving s)
     \<and> (saving s \<and> \<not> cancelled s \<longrightarrow> saver_on s)
     \<and> (main_at s = MSaverWait \<longrightarrow> cancelled s)"

definition sched_inv :: "bool \<Rightarrow> bool \<Rightarrow> sys \<Rightarrow> bool" where
  "sched_inv c4 c6 s \<longleftrightarrow>
     \<not> crashed s \<and> threads_inv c4 c6 s \<and> main_inv s \<and> saver_inv c4 c6 s"

lemmas sched_inv_defs = sched_inv_def threads_inv_def main_inv_def saver_inv_def

lemma open_update:
  "i < length ts \<Longrightarrow> sum_list (map open_w (ts[i := t])) + open_w (ts ! i)
     = sum_list (map open_w ts) + open_w t"
  by (rule sum_list_update_add)

lemma open_pos:
  assumes "i < length ts" and "\<not> ct_done (ts ! i)"
  shows "0 < sum_list (map open_w ts)"
proof -
  have "map open_w ts ! i \<in> set (map open_w ts)" by (rule nth_mem) (simp add: assms)
  moreover have "map open_w ts ! i = 1" using assms by (simp add: open_w_def)
  ultimately have "1 \<in> set (map open_w ts)" by metis
  then have "sum_list (map open_w ts) \<noteq> 0" unfolding sum_list_eq_0_iff by fastforce
  then show ?thesis by (simp only: neq0_conv)
qed

text \<open>A running transaction's next effect is done while the main goroutine still waits.\<close>

lemma live_thread:
  assumes "threads_inv c4 c6 s" and "i < length (threads s)" and "j < length (ct_live (threads s ! i))"
    and "ct_live (threads s ! i) ! j = a # es"
  shows "thread_ok c4 c6 (threads s ! i)" "tail_ok c4 c6 (a # es)"
    "0 < ct_wg (threads s ! i)" "\<not> ct_done (threads s ! i)" "0 < main_wg s"
proof -
  show t: "thread_ok c4 c6 (threads s ! i)"
    using assms(1,2) by (simp add: threads_inv_def)
  have m: "a # es \<in> set (ct_live (threads s ! i))" using assms(3,4) by (metis nth_mem)
  with t show "tail_ok c4 c6 (a # es)" by (auto simp: thread_ok_def)
  have "ct_wg (threads s ! i) \<noteq> 0"
    using t m done_live_empty [of "ct_live (threads s ! i)" c4 c6] by (auto simp: thread_ok_def)
  then show "0 < ct_wg (threads s ! i)" by simp
  with t show "\<not> ct_done (threads s ! i)" by (auto simp: thread_ok_def)
  with open_pos assms(1,2) show "0 < main_wg s" by (simp add: threads_inv_def)
qed

definition popped_thread :: "nat \<Rightarrow> act \<Rightarrow> script \<Rightarrow> cthread \<Rightarrow> cthread" where
  "popped_thread j a es t = t\<lparr>ct_live := (ct_live t)[j := es], ct_wg := ct_wg t - done_w a\<rparr>"

lemma pop_thread_ok:
  assumes "thread_ok c4 c6 t" and "j < length (ct_live t)" and "ct_live t ! j = a # es"
  shows "thread_ok c4 c6 (popped_thread j a es t)"
proof -
  have m: "a # es \<in> set (ct_live t)" using assms(2,3) by (metis nth_mem)
  with assms(1) have "tail_ok c4 c6 es" by (auto simp: thread_ok_def dest: tail_ok_pop)
  moreover have "scripts_load done_w ((ct_live t)[j := es]) + done_w a = scripts_load done_w (ct_live t)"
    using scripts_load_update [OF assms(2), of done_w es] assms(3) by (auto intro: add_cancel_end)
  ultimately show ?thesis
    using assms(1) set_update_subset_insert [of "ct_live t" j es]
    by (auto simp: thread_ok_def popped_thread_def)
qed

definition save_buf :: "saved gochan option \<Rightarrow> saved list" where
  "save_buf ch = (case ch of None \<Rightarrow> [] | Some c \<Rightarrow> cbuf c)"

fun saves4 :: "ev \<Rightarrow> saved list" where
  "saves4 (EvSave (Saved4 k l)) = [Saved4 k l]"
| "saves4 _ = []"

fun saves6 :: "ev \<Rightarrow> saved list" where
  "saves6 (EvSave (Saved6 k l)) = [Saved6 k l]"
| "saves6 _ = []"

lemma popped_plain:
  "done_w a = 0 \<Longrightarrow> popped_sys i j es s
     = s\<lparr>threads := (threads s)[i := popped_thread j a es (threads s ! i)]\<rparr>"
  by (simp add: upd_def popped_thread_def)

lemma popped_done:
  assumes "i < length (threads s)" "0 < ct_wg (threads s ! i)"
  shows "do_ev i EvDone (popped_sys i j es s)
     = Some (s\<lparr>threads := (threads s)[i := popped_thread j (Do EvDone) es (threads s ! i)]\<rparr>)"
  using assms by (simp add: upd_def popped_thread_def)

text \<open>The state after an effect: the transaction moved on, and the three channels.\<close>

definition after_ev :: "nat \<Rightarrow> nat \<Rightarrow> ev \<Rightarrow> script \<Rightarrow> sys \<Rightarrow> dialResult gochan
    \<Rightarrow> saved gochan option \<Rightarrow> saved gochan option \<Rightarrow> sys" where
  "after_ev i j e es s R S4 S6 =
     s\<lparr>threads := (threads s)[i := popped_thread j (Do e) es (threads s ! i)],
       rchan := R, s4chan := S4, s6chan := S6\<rparr>"

lemma after_ev_same:
  "s\<lparr>threads := (threads s)[i := popped_thread j (Do e) es (threads s ! i)]\<rparr>
     = after_ev i j e es s (rchan s) (s4chan s) (s6chan s)"
  by (cases s) (simp add: after_ev_def)

lemma do_ev_plain:
  assumes "do_ev i e (popped_sys i j es s) = Some t"
    and "do_ev i e (popped_sys i j es s) = Some (popped_sys i j es s)" "done_w (Do e) = 0"
  shows "t = after_ev i j e es s (rchan s) (s4chan s) (s6chan s)"
  using assms popped_plain [OF assms(3), of i j es s] by (simp add: after_ev_same)

lemma after_ev_chan:
  assumes "done_w (Do e) = 0"
  shows "(popped_sys i j es s)\<lparr>rchan := c\<rparr> = after_ev i j e es s c (s4chan s) (s6chan s)"
    "(popped_sys i j es s)\<lparr>s4chan := q\<rparr> = after_ev i j e es s (rchan s) q (s6chan s)"
    "(popped_sys i j es s)\<lparr>s6chan := q\<rparr> = after_ev i j e es s (rchan s) (s4chan s) q"
  by (simp_all add: popped_plain [OF assms] after_ev_def)

lemma do_ev_ok:
  assumes "do_ev i e (popped_sys i j es s) = Some t" and "tail_ok c4 c6 (Do e # es)"
    and "\<not> cclosed (rchan s)" and "chan_there c4 (s4chan s)" and "chan_there c6 (s6chan s)"
    and "i < length (threads s)" and "0 < ct_wg (threads s ! i)"
  shows "\<exists>R S4 S6. t = after_ev i j e es s R S4 S6
    \<and> \<not> cclosed R \<and> ccap R = ccap (rchan s) \<and> cbuf R = cbuf (rchan s) @ results [e]
    \<and> chan_there c4 S4 \<and> chan_there c6 S6
    \<and> save_buf S4 = save_buf (s4chan s) @ saves4 e \<and> save_buf S6 = save_buf (s6chan s) @ saves6 e"
proof (cases e)
  case (EvResult r)
  with assms(1,3) obtain c where c: "chan_send (rchan s) r = Sent c" "t = (popped_sys i j es s)\<lparr>rchan := c\<rparr>"
    by (auto simp: chan_send_def split: sendres.splits if_splits)
  from EvResult have "done_w (Do e) = 0" by simp
  then have t: "t = after_ev i j e es s c (s4chan s) (s6chan s)"
    unfolding c(2) by (rule after_ev_chan(1))
  with t assms(4,5) chan_send_SentD [OF c(1)] EvResult show ?thesis
    by (intro exI [of _ c] exI [of _ "s4chan s"] exI [of _ "s6chan s"]) simp
next
  case (EvSave l)
  show ?thesis
  proof (cases l)
    case (Saved4 k x)
    with assms(2,4) EvSave obtain q where q: "s4chan s = Some q" "\<not> cclosed q" "0 < ccap q" c4
      by (auto simp: chan_there_def)
    with assms(1) EvSave Saved4 obtain c where c: "chan_send q (Saved4 k x) = Sent c"
      "t = (popped_sys i j es s)\<lparr>s4chan := Some c\<rparr>"
      by (auto simp: chan_send_def split: sendres.splits if_splits)
    from EvSave have "done_w (Do e) = 0" by simp
    then have t: "t = after_ev i j e es s (rchan s) (Some c) (s6chan s)"
      unfolding c(2) by (rule after_ev_chan(2))
    with t assms(3,5) q chan_send_SentD [OF c(1)] EvSave Saved4 show ?thesis
      by (intro exI [of _ "rchan s"] exI [of _ "Some c"] exI [of _ "s6chan s"])
        (simp add: save_buf_def chan_there_def)
  next
    case (Saved6 k x)
    with assms(2,5) EvSave obtain q where q: "s6chan s = Some q" "\<not> cclosed q" "0 < ccap q" c6
      by (auto simp: chan_there_def)
    with assms(1) EvSave Saved6 obtain c where c: "chan_send q (Saved6 k x) = Sent c"
      "t = (popped_sys i j es s)\<lparr>s6chan := Some c\<rparr>"
      by (auto simp: chan_send_def split: sendres.splits if_splits)
    from EvSave have "done_w (Do e) = 0" by simp
    then have t: "t = after_ev i j e es s (rchan s) (s4chan s) (Some c)"
      unfolding c(2) by (rule after_ev_chan(3))
    with t assms(3,4) q chan_send_SentD [OF c(1)] EvSave Saved6 show ?thesis
      by (intro exI [of _ "rchan s"] exI [of _ "s4chan s"] exI [of _ "Some c"])
        (simp add: save_buf_def chan_there_def)
  qed
next
  case EvDone
  then have "t = after_ev i j e es s (rchan s) (s4chan s) (s6chan s)"
    using assms(1) popped_done [OF assms(6,7), of j es] by (simp add: after_ev_same)
  with EvDone assms(3-5) show ?thesis
    by (intro exI [of _ "rchan s"] exI [of _ "s4chan s"] exI [of _ "s6chan s"]) simp
qed (use do_ev_plain [OF assms(1)] assms(3-5) in
  \<open>intro exI [of _ "rchan s"] exI [of _ "s4chan s"] exI [of _ "s6chan s"]; simp\<close>)+

lemma after_ev_sel [simp]:
  "threads (after_ev i j e es s R S4 S6) = (threads s)[i := popped_thread j (Do e) es (threads s ! i)]"
  "pending (after_ev i j e es s R S4 S6) = pending s" "main_wg (after_ev i j e es s R S4 S6) = main_wg s"
  "rchan (after_ev i j e es s R S4 S6) = R" "s4chan (after_ev i j e es s R S4 S6) = S4"
  "s6chan (after_ev i j e es s R S4 S6) = S6" "collected (after_ev i j e es s R S4 S6) = collected s"
  "collector_ended (after_ev i j e es s R S4 S6) = collector_ended s"
  "saving (after_ev i j e es s R S4 S6) = saving s" "saver_on (after_ev i j e es s R S4 S6) = saver_on s"
  "cancelled (after_ev i j e es s R S4 S6) = cancelled s" "stored (after_ev i j e es s R S4 S6) = stored s"
  "main_at (after_ev i j e es s R S4 S6) = main_at s" "crashed (after_ev i j e es s R S4 S6) = crashed s"
  by (simp_all add: after_ev_def)

lemma act_ok:
  assumes "sys_move (Act i j) s = Some t" and "sched_inv c4 c6 s"
  shows "\<exists>e es R S4 S6. i < length (threads s) \<and> j < length (ct_live (threads s ! i))
    \<and> ct_live (threads s ! i) ! j = Do e # es \<and> \<not> ct_done (threads s ! i) \<and> 0 < main_wg s
    \<and> t = after_ev i j e es s R S4 S6
    \<and> \<not> cclosed R \<and> ccap R = ccap (rchan s) \<and> cbuf R = cbuf (rchan s) @ results [e]
    \<and> chan_there c4 S4 \<and> chan_there c6 S6
    \<and> save_buf S4 = save_buf (s4chan s) @ saves4 e \<and> save_buf S6 = save_buf (s6chan s) @ saves6 e"
proof -
  from act_move [OF assms(1)] obtain a es where a: "i < length (threads s)"
    "j < length (ct_live (threads s ! i))" "ct_live (threads s ! i) ! j = a # es"
    "case a of Crash \<Rightarrow> t = s\<lparr>crashed := True\<rparr> | Do e \<Rightarrow> do_ev i e (popped_sys i j es s) = Some t"
    by blast
  have ti: "threads_inv c4 c6 s" using assms(2) by (simp add: sched_inv_def)
  note l = live_thread [OF ti a(1-3)]
  from l(2) obtain e where e: "a = Do e" by (cases a) auto
  have "main_at s \<in> {MStart, MWait}" using l(5) assms(2) by (auto simp: sched_inv_defs)
  then have o: "\<not> cclosed (rchan s)" using assms(2) by (auto simp: sched_inv_defs)
  have d: "do_ev i e (popped_sys i j es s) = Some t" using a(4) e by simp
  have c: "chan_there c4 (s4chan s)" "chan_there c6 (s6chan s)"
    using assms(2) by (simp_all add: sched_inv_def saver_inv_def)
  from do_ev_ok [OF d l(2) [unfolded e] o c a(1) l(3)] obtain R S4 S6 where
    r: "t = after_ev i j e es s R S4 S6 \<and> \<not> cclosed R
    \<and> ccap R = ccap (rchan s) \<and> cbuf R = cbuf (rchan s) @ results [e]
    \<and> chan_there c4 S4 \<and> chan_there c6 S6
    \<and> save_buf S4 = save_buf (s4chan s) @ saves4 e \<and> save_buf S6 = save_buf (s6chan s) @ saves6 e"
    by (elim exE)
  show ?thesis
    by (intro exI [of _ e] exI [of _ es] exI [of _ R] exI [of _ S4] exI [of _ S6] conjI a(1,2) l(4,5) r
        a(3) [unfolded e])
qed

lemma all_threads_update:
  assumes "\<forall>t \<in> set ts. P t" and "P u"
  shows "\<forall>t \<in> set (ts[i := u]). P t"
  using assms set_update_subset_insert [of ts i u] by auto

lemma threads_inv_update:
  assumes "threads_inv c4 c6 s" and "i < length (threads s)" and "thread_ok c4 c6 u"
    and "ct_done u = ct_done (threads s ! i)"
    and "threads t = (threads s)[i := u]" and "pending t = pending s" and "main_wg t = main_wg s"
  shows "threads_inv c4 c6 t"
proof -
  have "open_w u = open_w (threads s ! i)" using assms(4) by (simp add: open_w_def)
  then have "sum_list (map open_w ((threads s)[i := u])) = sum_list (map open_w (threads s))"
    using open_update [OF assms(2), of u] by simp
  with assms all_threads_update [of "threads s" "thread_ok c4 c6" u i] show ?thesis
    by (simp add: threads_inv_def)
qed

lemma inv_Act:
  assumes "sys_move (Act i j) s = Some t" and "sched_inv c4 c6 s"
  shows "sched_inv c4 c6 t"
proof -
  from act_ok [OF assms] obtain e es R S4 S6 where a: "i < length (threads s)"
    "j < length (ct_live (threads s ! i))" "ct_live (threads s ! i) ! j = Do e # es"
    "\<not> ct_done (threads s ! i)" "0 < main_wg s" "t = after_ev i j e es s R S4 S6"
    "\<not> cclosed R" "ccap R = ccap (rchan s)" "chan_there c4 S4" "chan_there c6 S6"
    by blast
  have "thread_ok c4 c6 (threads s ! i)" using assms(2) a(1) by (simp add: sched_inv_defs)
  note p = pop_thread_ok [OF this a(2,3)]
  have "threads_inv c4 c6 t"
    by (rule threads_inv_update [OF _ a(1) p])
      (use assms(2) in \<open>simp_all add: a(6) sched_inv_def popped_thread_def\<close>)
  moreover have "main_at s \<in> {MStart, MWait}" using a(5) assms(2) by (auto simp: sched_inv_defs)
  then have "\<not> collector_ended s" using assms(2) by (auto simp: sched_inv_defs)
  ultimately show ?thesis
    using assms(2) a(7-10) \<open>main_at s \<in> {MStart, MWait}\<close>
    by (auto simp: sched_inv_def main_inv_def saver_inv_def a(6))
qed

lemma inv_Spawn:
  assumes "sys_move (Spawn i) s = Some t" and "sched_inv c4 c6 s"
  shows "sched_inv c4 c6 t"
proof -
  let ?f = "\<lambda>sc scs t. t\<lparr>ct_todo := scs, ct_live := ct_live t @ [sc], ct_wg := ct_wg t + 1\<rparr>"
  from assms(1) obtain sc scs where *: "i < length (threads s)" "\<not> ct_done (threads s ! i)"
    "ct_todo (threads s ! i) = sc # scs" "t = upd i (?f sc scs) s"
    by (auto split: if_splits list.splits)
  have ok: "thread_ok c4 c6 (threads s ! i)" using assms(2) *(1) by (simp add: sched_inv_defs)
  then have "tail_ok c4 c6 sc" "sc \<noteq> []" using *(3) by (auto simp: thread_ok_def)
  then have "script_load done_w sc = 1" by (simp add: tail_ok_done)
  with ok *(2,3) have p: "thread_ok c4 c6 (?f sc scs (threads s ! i))"
    by (auto simp: thread_ok_def)
  have "threads_inv c4 c6 t"
    by (rule threads_inv_update [OF _ *(1) p])
      (use assms(2) in \<open>simp_all add: *(4) sched_inv_def\<close>)
  then show ?thesis
    using assms(2) by (auto simp: sched_inv_def main_inv_def saver_inv_def *(4))
qed

lemma inv_ClientDone:
  assumes "sys_move (ClientDone i) s = Some t" and "sched_inv c4 c6 s"
  shows "sched_inv c4 c6 t"
proof -
  let ?u = "(threads s ! i)\<lparr>ct_done := True\<rparr>"
  from assms(1) have *: "i < length (threads s)" "\<not> ct_done (threads s ! i)"
    "ct_todo (threads s ! i) = []" "\<not> ct_waits (threads s ! i) \<or> ct_wg (threads s ! i) = 0"
    "t = (upd i (\<lambda>t. t\<lparr>ct_done := True\<rparr>) s)\<lparr>main_wg := main_wg s - 1\<rparr>"
    by (auto split: if_splits)
  have ok: "thread_ok c4 c6 (threads s ! i)" using assms(2) *(1) by (simp add: sched_inv_defs)
  with *(3,4) have "thread_ok c4 c6 ?u" by (auto simp: thread_ok_def)
  then have "\<forall>t \<in> set (threads t). thread_ok c4 c6 t"
    using assms(2) all_threads_update [of "threads s" "thread_ok c4 c6" ?u i]
    by (simp add: *(5) sched_inv_defs)
  moreover have "main_wg t = sum_list (map open_w (threads t))"
    using open_update [OF *(1), of ?u] *(2) assms(2)
    by (simp add: *(5) sched_inv_defs open_w_def)
  moreover have "\<forall>cr \<in> set (pending t). run_ok c4 c6 cr"
    using assms(2) by (simp add: *(5) sched_inv_defs)
  ultimately have "threads_inv c4 c6 t" by (simp add: threads_inv_def)
  then show ?thesis
    using assms(2) by (auto simp: sched_inv_def main_inv_def saver_inv_def *(5))
qed

lemma inv_StartClient:
  assumes "sys_move StartClient s = Some t" and "sched_inv c4 c6 s"
  shows "sched_inv c4 c6 t"
proof -
  from assms(1) obtain cr crs where *: "pending s = cr # crs" "main_at s = MStart"
    "t = s\<lparr>pending := crs, threads := threads s @ [new_thread cr], main_wg := main_wg s + 1\<rparr>"
    by (auto split: list.splits if_splits)
  have "run_ok c4 c6 cr" using assms(2) *(1) by (simp add: sched_inv_defs)
  from new_thread_ok [OF this] have "threads_inv c4 c6 t"
    using assms(2) *(1)
    by (auto simp: *(3) sched_inv_defs open_w_def new_thread_def)
  then show ?thesis
    using assms(2) *(2) by (auto simp: sched_inv_def main_inv_def saver_inv_def *(3))
qed

lemma inv_MainNext:
  assumes "sys_move MainNext s = Some t" and "sched_inv c4 c6 s"
  shows "sched_inv c4 c6 t"
proof -
  have m: "main_next s = Some t" using assms(1) by simp
  have "threads_inv c4 c6 t"
    using assms(2) main_next_frame [OF m] by (simp add: sched_inv_defs)
  moreover have "\<not> crashed t \<and> main_inv t \<and> saver_inv c4 c6 t"
    using m assms(2)
    by (cases "main_at s")
      (auto simp: main_next_def sched_inv_def main_inv_def saver_inv_def chan_close_def
        split: if_splits)
  ultimately show ?thesis by (simp add: sched_inv_def)
qed

lemma chan_there_pop:
  assumes "chan_there c ch" and "recv_save ch = Some (l, q)"
  shows "chan_there c (Some q)" "save_buf ch = l # cbuf q"
proof -
  from assms(2) obtain c0 where c0: "ch = Some c0" "chan_recv c0 = Recv l q"
    by (auto simp: recv_save_def split: option.splits recvres.splits)
  note r = chan_recv_RecvD [OF c0(2)]
  show "chan_there c (Some q)" "save_buf ch = l # cbuf q"
    using assms(1) r by (simp_all add: chan_there_def save_buf_def c0(1))
qed

lemma chan_recv_zero: "chan_recv c = RecvZero \<Longrightarrow> cclosed c \<and> cbuf c = []"
  by (auto simp: chan_recv_def split: list.splits if_splits)

lemma inv_quiet:
  assumes "sys_move m s = Some t" and "sched_inv c4 c6 s"
    and "m \<in> {AllStarted, Collect, Save4, Save6, SaverStop}"
    and "\<not> crashed t" "main_inv t" "saver_inv c4 c6 t"
  shows "sched_inv c4 c6 t"
  using other_frame [OF assms(1)] assms(2-) by (auto simp: sched_inv_def threads_inv_def)

lemma inv_AllStarted:
  assumes "sys_move AllStarted s = Some t" and "sched_inv c4 c6 s"
  shows "sched_inv c4 c6 t"
  using assms
  by (intro inv_quiet [OF assms])
    (auto simp: sched_inv_def main_inv_def saver_inv_def split: if_splits)

lemma inv_Collect:
  assumes "sys_move Collect s = Some t" and "sched_inv c4 c6 s"
  shows "sched_inv c4 c6 t"
proof (cases "chan_recv (rchan s)")
  case (Recv r c)
  with assms(1) have "t = s\<lparr>rchan := c, collected := collected s @ [r]\<rparr>" "\<not> collector_ended s"
    by (auto split: if_splits)
  with chan_recv_RecvD [OF Recv] assms show ?thesis
    by (intro inv_quiet [OF assms]) (auto simp: sched_inv_def main_inv_def saver_inv_def)
next
  case RecvZero
  with assms(1) have "t = s\<lparr>collector_ended := True\<rparr>" by (auto split: if_splits)
  with chan_recv_zero [OF RecvZero] assms show ?thesis
    by (intro inv_quiet [OF assms]) (auto simp: sched_inv_def main_inv_def saver_inv_def)
qed (use assms in \<open>auto split: if_splits\<close>)

lemma inv_Save4:
  assumes "sys_move Save4 s = Some t" and "sched_inv c4 c6 s"
  shows "sched_inv c4 c6 t"
proof -
  from assms(1) obtain l q where *: "recv_save (s4chan s) = Some (l, q)"
    "t = s\<lparr>s4chan := Some q, stored := stored s @ [l]\<rparr>"
    by (auto split: if_splits option.splits)
  have "chan_there c4 (Some q)"
    using chan_there_pop(1) [OF _ *(1)] assms(2) by (simp add: sched_inv_def saver_inv_def)
  with *(2) assms show ?thesis
    by (intro inv_quiet [OF assms]) (auto simp: sched_inv_def main_inv_def saver_inv_def)
qed

lemma inv_Save6:
  assumes "sys_move Save6 s = Some t" and "sched_inv c4 c6 s"
  shows "sched_inv c4 c6 t"
proof -
  from assms(1) obtain l q where *: "recv_save (s6chan s) = Some (l, q)"
    "t = s\<lparr>s6chan := Some q, stored := stored s @ [l]\<rparr>"
    by (auto split: if_splits option.splits)
  have "chan_there c6 (Some q)"
    using chan_there_pop(1) [OF _ *(1)] assms(2) by (simp add: sched_inv_def saver_inv_def)
  with *(2) assms show ?thesis
    by (intro inv_quiet [OF assms]) (auto simp: sched_inv_def main_inv_def saver_inv_def)
qed

lemma inv_SaverStop:
  assumes "sys_move SaverStop s = Some t" and "sched_inv c4 c6 s"
  shows "sched_inv c4 c6 t"
proof -
  from assms(1) have "cancelled s" "t = s\<lparr>saver_on := False\<rparr>" by (auto split: if_splits)
  with assms show ?thesis
    by (intro inv_quiet [OF assms]) (auto simp: sched_inv_def main_inv_def saver_inv_def)
qed

lemmas inv_moves = inv_StartClient inv_AllStarted inv_Spawn inv_Act inv_ClientDone
  inv_MainNext inv_Collect inv_Save4 inv_Save6 inv_SaverStop

lemma sched_inv_move:
  assumes "sys_move m s = Some t" and "sched_inv c4 c6 s"
  shows "sched_inv c4 c6 t"
  using assms(1) by (cases m) (simp_all only: inv_moves [OF _ assms(2)])

text \<open>Unless it is interrupted, the saver is only stopped once the clients have ended.\<close>

definition undisturbed :: "sys \<Rightarrow> bool" where
  "undisturbed s \<longleftrightarrow> (cancelled s \<longrightarrow> main_at s \<notin> {MStart, MWait, MCancel})"

lemma do_ev_main: "do_ev i e s = Some t \<Longrightarrow> main_at t = main_at s \<and> cancelled t = cancelled s"
  by (cases "(i, e, s)" rule: do_ev.cases) (auto split: sendres.splits option.splits if_splits)

lemma undisturbed_move:
  assumes "sys_move m s = Some t" and "undisturbed s"
  shows "undisturbed t"
proof (cases m)
  case (Act i j)
  with act_move [of i j s t] assms(1) obtain a es where
    "case a of Crash \<Rightarrow> t = s\<lparr>crashed := True\<rparr> | Do e \<Rightarrow> do_ev i e (popped_sys i j es s) = Some t"
    by blast
  then have "main_at t = main_at s \<and> cancelled t = cancelled s"
    by (cases a) (auto dest: do_ev_main)
  with assms(2) show ?thesis by (simp add: undisturbed_def)
next
  case MainNext
  with assms show ?thesis
    by (cases "main_at s") (auto simp: undisturbed_def main_next_def split: if_splits gores.splits)
qed (use assms in \<open>auto simp: undisturbed_def split: list.splits if_splits option.splits recvres.splits\<close>)

end
