(* ===== verification/Run.thy ===== *)
theory Run
  imports Sched
begin

text \<open>
  What a run of the scheduler does: every result and every lease is accounted for, a run ends
  within a bound, never stops before its end and never panics, provided the clients' goroutines
  wait for their transactions.
\<close>

section \<open>Accounting of results and leases\<close>

fun res_w :: "act \<Rightarrow> dialResult multiset" where
  "res_w (Do (EvResult r)) = {#r#}"
| "res_w _ = {#}"

fun save_w :: "act \<Rightarrow> saved multiset" where
  "save_w (Do (EvSave l)) = {#l#}"
| "save_w _ = {#}"

definition tot_results :: "sys \<Rightarrow> dialResult multiset" where
  "tot_results s = mset (collected s) + mset (cbuf (rchan s)) + load res_w s"

definition tot_saves :: "sys \<Rightarrow> saved multiset" where
  "tot_saves s = mset (stored s) + mset (save_buf (s4chan s)) + mset (save_buf (s6chan s))
     + load save_w s"

lemma res_w_results: "res_w (Do e) = mset (results [e])"
  by (cases e) auto

lemma save_w_saves: "save_w (Do e) = mset (saves4 e) + mset (saves6 e)"
proof (cases e)
  case (EvSave l)
  then show ?thesis by (cases l) auto
qed auto

lemma load_after_ev:
  assumes "i < length (threads s)" "j < length (ct_live (threads s ! i))"
    and "ct_live (threads s ! i) ! j = Do e # es"
  shows "load w (after_ev i j e es s R S4 S6) + w (Do e) = load w s"
proof -
  have "map (thread_load w) (threads (after_ev i j e es s R S4 S6))
      = map (thread_load w) (threads (popped_sys i j es s))"
    by (simp add: map_update thread_load_def popped_thread_def)
  then have "load w (after_ev i j e es s R S4 S6) = load w (popped_sys i j es s)"
    by (simp add: load_def)
  with load_pop [OF assms, of w] show ?thesis by simp
qed

lemma load_move:
  assumes "sys_move m s = Some t" and "\<And>i j. m \<noteq> Act i j"
  shows "load w t = load w s"
  using assms load_start load_spawn load_done load_other [OF assms(1)]
  by (cases m) (blast+)

lemma tot_Act:
  assumes "sys_move (Act i j) s = Some t" and "sched_inv c4 c6 s"
  shows "tot_results t = tot_results s \<and> tot_saves t = tot_saves s"
proof -
  from act_ok [OF assms] obtain e es R S4 S6 where a: "i < length (threads s)"
    "j < length (ct_live (threads s ! i))" "ct_live (threads s ! i) ! j = Do e # es"
    "t = after_ev i j e es s R S4 S6" "cbuf R = cbuf (rchan s) @ results [e]"
    "save_buf S4 = save_buf (s4chan s) @ saves4 e" "save_buf S6 = save_buf (s6chan s) @ saves6 e"
    by blast
  note l = load_after_ev [OF a(1-3), of _ R S4 S6]
  have "load res_w t + mset (results [e]) = load res_w s"
    using l [of res_w] by (simp only: a(4) res_w_results)
  moreover have "load save_w t + (mset (saves4 e) + mset (saves6 e)) = load save_w s"
    using l [of save_w] by (simp only: a(4) save_w_saves)
  ultimately show ?thesis
    by (simp add: tot_results_def tot_saves_def a(4-7) ac_simps flip: mset_append)
       (simp add: ac_simps)
qed

lemma tot_frame:
  assumes "sys_move m s = Some t" and "m \<in> {StartClient, AllStarted, MainNext, SaverStop} \<union> range Spawn \<union> range ClientDone"
  shows "collected t = collected s" "cbuf (rchan t) = cbuf (rchan s)" "stored t = stored s"
    "s4chan t = s4chan s" "s6chan t = s6chan s"
  using assms by (auto simp: main_next_frame split: if_splits list.splits option.splits)

lemma recv_save_buf: "recv_save ch = Some (l, q) \<Longrightarrow> save_buf ch = l # cbuf q"
  by (auto simp: recv_save_def save_buf_def dest: chan_recv_RecvD split: option.splits recvres.splits)

lemma tot_recv:
  assumes "sys_move m s = Some t" and "m \<in> {Collect, Save4, Save6}"
  shows "mset (collected t) + mset (cbuf (rchan t)) = mset (collected s) + mset (cbuf (rchan s))
    \<and> mset (stored t) + mset (save_buf (s4chan t)) + mset (save_buf (s6chan t))
      = mset (stored s) + mset (save_buf (s4chan s)) + mset (save_buf (s6chan s))"
proof -
  consider "m = Collect" | "m = Save4" | "m = Save6" using assms(2) by auto
  then show ?thesis
  proof cases
    case 1
    with assms(1) show ?thesis
      by (cases "chan_recv (rchan s)") (auto dest: chan_recv_RecvD(1) split: if_splits)
  next
    case 2
    with assms(1) obtain l q where "recv_save (s4chan s) = Some (l, q)"
      "t = s\<lparr>s4chan := Some q, stored := stored s @ [l]\<rparr>"
      by (auto split: if_splits option.splits)
    with recv_save_buf show ?thesis by (auto simp: save_buf_def)
  next
    case 3
    with assms(1) obtain l q where "recv_save (s6chan s) = Some (l, q)"
      "t = s\<lparr>s6chan := Some q, stored := stored s @ [l]\<rparr>"
      by (auto split: if_splits option.splits)
    with recv_save_buf show ?thesis by (auto simp: save_buf_def)
  qed
qed

text \<open>No move loses or makes up a result or a lease.\<close>

lemma tot_move:
  assumes "sys_move m s = Some t" and "sched_inv c4 c6 s"
  shows "tot_results t = tot_results s \<and> tot_saves t = tot_saves s"
proof (cases "\<exists>i j. m = Act i j")
  case True
  with tot_Act assms show ?thesis by blast
next
  case False
  then have l: "load w t = load w s" for w :: "act \<Rightarrow> 'm::cancel_comm_monoid_add"
    using load_move [OF assms(1)] by blast
  consider "m \<in> {Collect, Save4, Save6}"
    | "m \<in> {StartClient, AllStarted, MainNext, SaverStop} \<union> range Spawn \<union> range ClientDone"
    using False by (cases m) auto
  then show ?thesis
  proof cases
    case 1
    with tot_recv [OF assms(1)] show ?thesis by (simp add: tot_results_def tot_saves_def l)
  next
    case 2
    show ?thesis
      using tot_frame [OF assms(1) 2] by (simp add: tot_results_def tot_saves_def l)
  qed
qed

section \<open>A run is bounded\<close>

text \<open>An effect that fills a channel makes a receive possible, and counts for both.\<close>

fun act_w :: "act \<Rightarrow> nat" where
  "act_w (Do (EvResult r)) = 2"
| "act_w (Do (EvSave l)) = 2"
| "act_w _ = 1"

definition thread_extra :: "cthread \<Rightarrow> nat" where
  "thread_extra t = length (ct_todo t) + open_w t"

definition run_extra :: "client_run \<Rightarrow> nat" where
  "run_extra cr = length (cr_scripts cr) + 2"

fun phase_rank :: "phase \<Rightarrow> nat" where
  "phase_rank MStart = 6"
| "phase_rank MWait = 5"
| "phase_rank MCancel = 4"
| "phase_rank MSaverWait = 3"
| "phase_rank MClose = 2"
| "phase_rank MJoin = 1"
| "phase_rank MDone = 0"

definition rank :: "sys \<Rightarrow> nat" where
  "rank s = load act_w s + sum_list (map run_extra (pending s)) + sum_list (map thread_extra (threads s))
     + length (cbuf (rchan s)) + length (save_buf (s4chan s)) + length (save_buf (s6chan s))
     + (if collector_ended s then 0 else 1) + (if saver_on s then 1 else 0)
     + phase_rank (main_at s)"

lemma act_w_ev: "act_w (Do e) = 1 + length (results [e]) + length (saves4 e) + length (saves6 e)"
proof (cases e)
  case (EvSave l)
  then show ?thesis by (cases l) auto
qed auto

lemma extra_update:
  "i < length ts \<Longrightarrow> sum_list (map thread_extra (ts[i := t])) + thread_extra (ts ! i)
     = sum_list (map thread_extra ts) + thread_extra t"
  by (rule sum_list_update_add)

lemma rank_Act:
  assumes "sys_move (Act i j) s = Some t" and "sched_inv c4 c6 s"
  shows "rank t < rank s"
proof -
  from act_ok [OF assms] obtain e es R S4 S6 where a: "i < length (threads s)"
    "j < length (ct_live (threads s ! i))" "ct_live (threads s ! i) ! j = Do e # es"
    "t = after_ev i j e es s R S4 S6" "cbuf R = cbuf (rchan s) @ results [e]"
    "save_buf S4 = save_buf (s4chan s) @ saves4 e" "save_buf S6 = save_buf (s6chan s) @ saves6 e"
    by blast
  have l: "load act_w t + act_w (Do e) = load act_w s"
    using load_after_ev [OF a(1-3)] by (simp only: a(4))
  have x: "sum_list (map thread_extra (threads t)) = sum_list (map thread_extra (threads s))"
    using extra_update [OF a(1), of "popped_thread j (Do e) es (threads s ! i)"]
    by (simp add: a(4) thread_extra_def popped_thread_def open_w_def)
  have f: "pending t = pending s" "length (cbuf (rchan t)) = length (cbuf (rchan s)) + length (results [e])"
    "length (save_buf (s4chan t)) = length (save_buf (s4chan s)) + length (saves4 e)"
    "length (save_buf (s6chan t)) = length (save_buf (s6chan s)) + length (saves6 e)"
    "collector_ended t = collector_ended s" "saver_on t = saver_on s" "main_at t = main_at s"
    by (simp_all add: a(4-7))
  show ?thesis unfolding rank_def f x using l act_w_ev [of e] by linarith
qed

lemma rank_StartClient:
  assumes "sys_move StartClient s = Some t"
  shows "rank t < rank s"
proof -
  from assms obtain cr crs where *: "pending s = cr # crs"
    "t = s\<lparr>pending := crs, threads := threads s @ [new_thread cr], main_wg := main_wg s + 1\<rparr>"
    by (auto split: list.splits if_splits)
  have "thread_extra (new_thread cr) < run_extra cr"
    by (simp add: thread_extra_def new_thread_def run_extra_def open_w_def)
  then show ?thesis using load_start [OF assms, of act_w] by (simp add: rank_def *)
qed

lemma rank_Spawn:
  assumes "sys_move (Spawn i) s = Some t"
  shows "rank t < rank s"
proof -
  let ?f = "\<lambda>sc scs t. t\<lparr>ct_todo := scs, ct_live := ct_live t @ [sc], ct_wg := ct_wg t + 1\<rparr>"
  from assms obtain sc scs where *: "i < length (threads s)" "ct_todo (threads s ! i) = sc # scs"
    "t = upd i (?f sc scs) s"
    by (auto split: if_splits list.splits)
  have "sum_list (map thread_extra (threads t)) < sum_list (map thread_extra (threads s))"
    using extra_update [OF *(1), of "?f sc scs (threads s ! i)"] *(2)
    by (simp add: *(3) thread_extra_def open_w_def)
  then show ?thesis using load_spawn [OF assms, of act_w] by (simp add: rank_def *(3))
qed

lemma rank_ClientDone:
  assumes "sys_move (ClientDone i) s = Some t"
  shows "rank t < rank s"
proof -
  from assms have *: "i < length (threads s)" "\<not> ct_done (threads s ! i)"
    "t = (upd i (\<lambda>t. t\<lparr>ct_done := True\<rparr>) s)\<lparr>main_wg := main_wg s - 1\<rparr>"
    by (auto split: if_splits)
  have "sum_list (map thread_extra (threads t)) < sum_list (map thread_extra (threads s))"
    using extra_update [OF *(1), of "(threads s ! i)\<lparr>ct_done := True\<rparr>"] *(2)
    by (simp add: *(3) thread_extra_def open_w_def)
  then show ?thesis using load_done [OF assms, of act_w] by (simp add: rank_def *(3))
qed

lemma rank_recv:
  assumes "sys_move m s = Some t" and "m \<in> {Collect, Save4, Save6}"
  shows "rank t < rank s"
proof -
  have l: "load act_w t = load act_w s" using load_other [OF assms(1)] assms(2) by blast
  consider "m = Collect" | "m = Save4" | "m = Save6" using assms(2) by auto
  then show ?thesis
  proof cases
    case 1
    with assms(1) l show ?thesis
      by (cases "chan_recv (rchan s)") (auto simp: rank_def dest: chan_recv_RecvD(1) split: if_splits)
  next
    case 2
    with assms(1) obtain x q where *: "recv_save (s4chan s) = Some (x, q)"
      "t = s\<lparr>s4chan := Some q, stored := stored s @ [x]\<rparr>"
      by (auto split: if_splits option.splits)
    then have "length (save_buf (s4chan t)) < length (save_buf (s4chan s))"
      using recv_save_buf [OF *(1)] by (simp add: save_buf_def)
    with *(2) l show ?thesis by (simp add: rank_def)
  next
    case 3
    with assms(1) obtain x q where *: "recv_save (s6chan s) = Some (x, q)"
      "t = s\<lparr>s6chan := Some q, stored := stored s @ [x]\<rparr>"
      by (auto split: if_splits option.splits)
    then have "length (save_buf (s6chan t)) < length (save_buf (s6chan s))"
      using recv_save_buf [OF *(1)] by (simp add: save_buf_def)
    with *(2) l show ?thesis by (simp add: rank_def)
  qed
qed

lemma rank_MainNext:
  assumes "sys_move MainNext s = Some t" and "sched_inv c4 c6 s"
  shows "rank t < rank s"
proof -
  have m: "main_next s = Some t" using assms(1) by simp
  have "\<not> crashed t" using sched_inv_move [OF assms] by (simp add: sched_inv_def)
  then have "phase_rank (main_at t) < phase_rank (main_at s)"
    using m by (cases "main_at s") (auto simp: main_next_def split: if_splits gores.splits)
  then show ?thesis
    using main_next_frame [OF m] load_other [OF assms(1), of act_w] by (simp add: rank_def)
qed

lemma rank_quiet:
  assumes "sys_move m s = Some t" and "m \<in> {AllStarted, SaverStop}"
  shows "rank t < rank s"
  using assms load_other [OF assms(1), of act_w] by (auto simp: rank_def split: if_splits)

lemma rank_move:
  assumes "sys_move m s = Some t" and "sched_inv c4 c6 s"
  shows "rank t < rank s"
  using assms(1)
  by (cases m) (simp_all only: rank_Act [OF _ assms(2)] rank_MainNext [OF _ assms(2)] rank_StartClient
    rank_Spawn rank_ClientDone rank_recv rank_quiet insert_iff simp_thms)

section \<open>A run does not get stuck\<close>

lemma chan_open_send: "\<not> cclosed c \<Longrightarrow> 0 < ccap c \<Longrightarrow> (\<exists>c'. chan_send c x = Sent c') \<or> cbuf c \<noteq> []"
  by (auto simp: chan_send_def)

lemma recv_ready: "cbuf c \<noteq> [] \<Longrightarrow> \<exists>x c'. chan_recv c = Recv x c'"
  by (auto simp: chan_recv_def split: list.split)

text \<open>A lease that cannot be sent: the saver's channel is full (or missing).\<close>

definition full_chan :: "saved gochan option \<Rightarrow> bool" where
  "full_chan ch = (case ch of None \<Rightarrow> True | Some q \<Rightarrow> \<not> cclosed q \<and> ccap q \<le> length (cbuf q))"

fun blocked_save :: "sys \<Rightarrow> act \<Rightarrow> bool" where
  "blocked_save s (Do (EvSave (Saved4 k l))) = full_chan (s4chan s)"
| "blocked_save s (Do (EvSave (Saved6 k l))) = full_chan (s6chan s)"
| "blocked_save s _ = False"

text \<open>A transaction stays at such a send until the saver receives.\<close>

definition waits_for_saver :: "nat \<Rightarrow> nat \<Rightarrow> sys \<Rightarrow> bool" where
  "waits_for_saver i j s \<longleftrightarrow>
     i < length (threads s) \<and> j < length (ct_live (threads s ! i))
     \<and> (\<exists>a es. ct_live (threads s ! i) ! j = a # es \<and> blocked_save s a)"

text \<open>An effect is possible, or what it waits for can be taken from the channel first.\<close>

lemma act_or_blocked:
  assumes "sched_inv c4 c6 s" and "main_at s \<in> {MStart, MWait}"
    and "i < length (threads s)" "j < length (ct_live (threads s ! i))"
    and "ct_live (threads s ! i) ! j = a # es"
  shows "(\<exists>m t. sys_move m s = Some t) \<or> waits_for_saver i j s"
proof -
  have ti: "threads_inv c4 c6 s" using assms(1) by (simp add: sched_inv_def)
  note l = live_thread [OF ti assms(3-5)]
  from l(2) obtain e where e: "a = Do e" by (cases a) auto
  have o: "\<not> cclosed (rchan s)" "0 < ccap (rchan s)" "\<not> collector_ended s"
    using assms(1,2) by (auto simp: sched_inv_def main_inv_def)
  have ch: "chan_there c4 (s4chan s)" "chan_there c6 (s6chan s)"
    using assms(1) by (simp_all add: sched_inv_def saver_inv_def)
  let ?p = "popped_sys i j es s"
  have act: "sys_move (Act i j) s = do_ev i e ?p"
    using assms(3-5) e by simp
  have go: "(\<exists>m t. sys_move m s = Some t) \<or> waits_for_saver i j s" if "do_ev i e ?p = Some t" for t
    using act that by metis
  have wait: "(\<exists>m t. sys_move m s = Some t) \<or> waits_for_saver i j s" if "blocked_save s (Do e)"
    using assms(3-5) e that by (auto simp: waits_for_saver_def)
  show ?thesis
  proof (cases e)
    case (EvResult r)
    from chan_open_send [OF o(1,2), of r] show ?thesis
    proof
      assume "\<exists>c'. chan_send (rchan s) r = Sent c'"
      then obtain c' where "chan_send (rchan s) r = Sent c'" ..
      then have "do_ev i e ?p = Some (?p\<lparr>rchan := c'\<rparr>)"
        unfolding EvResult by simp
      then show ?thesis by (rule go)
    next
      assume "cbuf (rchan s) \<noteq> []"
      from recv_ready [OF this] obtain x c' where "chan_recv (rchan s) = Recv x c'" by blast
      with o(3) have "sys_move Collect s = Some (s\<lparr>rchan := c', collected := collected s @ [x]\<rparr>)"
        by simp
      then show ?thesis by blast
    qed
  next
    case (EvSave x)
    show ?thesis
    proof (cases x)
      case (Saved4 k y)
      with l(2) e EvSave have c4 by auto
      with ch(1) obtain q where q: "s4chan s = Some q" "\<not> cclosed q" by (auto simp: chan_there_def)
      show ?thesis
      proof (cases "length (cbuf q) < ccap q")
        case True
        then have "do_ev i e ?p = Some (?p\<lparr>s4chan := Some (q\<lparr>cbuf := cbuf q @ [x]\<rparr>)\<rparr>)"
          unfolding EvSave Saved4 using q by (simp add: chan_send_def)
        then show ?thesis by (rule go)
      qed (rule wait, simp add: EvSave Saved4 q full_chan_def)
    next
      case (Saved6 k y)
      with l(2) e EvSave have c6 by auto
      with ch(2) obtain q where q: "s6chan s = Some q" "\<not> cclosed q" by (auto simp: chan_there_def)
      show ?thesis
      proof (cases "length (cbuf q) < ccap q")
        case True
        then have "do_ev i e ?p = Some (?p\<lparr>s6chan := Some (q\<lparr>cbuf := cbuf q @ [x]\<rparr>)\<rparr>)"
          unfolding EvSave Saved6 using q by (simp add: chan_send_def)
        then show ?thesis by (rule go)
      qed (rule wait, simp add: EvSave Saved6 q full_chan_def)
    qed
  next
    case EvDone
    then have "do_ev i e ?p = Some (s\<lparr>threads := (threads s)[i := popped_thread j (Do EvDone) es
        (threads s ! i)]\<rparr>)"
      using popped_done [OF assms(3) l(3)] by simp
    then show ?thesis by (rule go)
  qed (rule go [of "popped_sys i j es s"], simp)+
qed

lemma full_drains:
  assumes "full_chan ch" and "chan_there True ch"
  shows "\<exists>l c. recv_save ch = Some (l, c)"
proof -
  from assms obtain q where q: "ch = Some q" "cbuf q \<noteq> []"
    by (force simp: full_chan_def chan_there_def)
  from recv_ready [OF q(2)] show ?thesis by (auto simp: recv_save_def q(1))
qed

lemma saver_unblocks:
  assumes "sched_inv c4 c6 s" and "waits_for_saver i j s" and "saver_on s"
  shows "\<exists>m t. sys_move m s = Some t"
proof -
  from assms(2) obtain a es where a: "i < length (threads s)" "j < length (ct_live (threads s ! i))"
    "ct_live (threads s ! i) ! j = a # es" "blocked_save s a"
    by (auto simp: waits_for_saver_def)
  have "threads_inv c4 c6 s" using assms(1) by (simp add: sched_inv_def)
  from live_thread(2) [OF this a(1-3)] have t: "tail_ok c4 c6 (a # es)" .
  have ch: "chan_there c4 (s4chan s)" "chan_there c6 (s6chan s)"
    using assms(1) by (simp_all add: sched_inv_def saver_inv_def)
  from a(4) consider k l where "a = Do (EvSave (Saved4 k l))" | k l where "a = Do (EvSave (Saved6 k l))"
    by (cases "(s, a)" rule: blocked_save.cases) auto
  then show ?thesis
  proof cases
    case 1
    with t a(4) ch(1) have "\<exists>l c. recv_save (s4chan s) = Some (l, c)" by (intro full_drains) auto
    then have "\<exists>t. sys_move Save4 s = Some t" using assms(3) by auto
    then show ?thesis by blast
  next
    case 2
    with t a(4) ch(2) have "\<exists>l c. recv_save (s6chan s) = Some (l, c)" by (intro full_drains) auto
    then have "\<exists>t. sys_move Save6 s = Some t" using assms(3) by auto
    then show ?thesis by blast
  qed
qed

text \<open>Only a run that saves its leases waits for a saver.\<close>

lemma waiting_saves:
  assumes "waits_for_saver i j s" and "sched_inv c4 c6 s"
  shows "saving s"
proof -
  from assms(1) obtain a es where a: "i < length (threads s)" "j < length (ct_live (threads s ! i))"
    "ct_live (threads s ! i) ! j = a # es" "blocked_save s a"
    by (auto simp: waits_for_saver_def)
  have "threads_inv c4 c6 s" using assms(2) by (simp add: sched_inv_def)
  from live_thread(2) [OF this a(1-3)] a(4) have "c4 \<or> c6"
    by (cases "(s, a)" rule: blocked_save.cases) auto
  with assms(2) show ?thesis by (simp add: sched_inv_def saver_inv_def)
qed

lemma thread_moves:
  assumes "sched_inv c4 c6 s" and "main_at s \<in> {MStart, MWait}"
    and "i < length (threads s)" and "\<not> ct_done (threads s ! i)"
  shows "(\<exists>m t. sys_move m s = Some t) \<or> (\<not> saver_on s \<and> (\<exists>j. waits_for_saver i j s))"
proof (cases "ct_todo (threads s ! i)")
  case (Cons sc scs)
  then have "\<exists>t. sys_move (Spawn i) s = Some t" using assms(3,4) by simp
  then show ?thesis by blast
next
  case Nil
  have ok: "thread_ok c4 c6 (threads s ! i)" using assms(1,3) by (simp add: sched_inv_defs)
  show ?thesis
  proof (cases "ct_wg (threads s ! i) = 0")
    case True
    then have "\<exists>t. sys_move (ClientDone i) s = Some t" using assms(3,4) Nil by simp
    then show ?thesis by blast
  next
    case False
    with ok have "\<not> (\<forall>sc \<in> set (ct_live (threads s ! i)). sc = [])"
      using done_live_empty [of "ct_live (threads s ! i)" c4 c6] by (auto simp: thread_ok_def)
    then obtain j where "j < length (ct_live (threads s ! i))" "ct_live (threads s ! i) ! j \<noteq> []"
      by (metis in_set_conv_nth)
    then show ?thesis
      using act_or_blocked [OF assms(1-3)] saver_unblocks [OF assms(1)] by (metis neq_Nil_conv)
  qed
qed

lemma sched_progress:
  assumes "sched_inv c4 c6 s" and "main_at s \<noteq> MDone"
  shows "(\<exists>m t. sys_move m s = Some t)
    \<or> (main_at s = MWait \<and> \<not> saver_on s \<and> (\<exists>i j. waits_for_saver i j s))"
proof (cases "main_at s")
  case MStart
  then have "(\<exists>t. sys_move StartClient s = Some t) \<or> (\<exists>t. sys_move AllStarted s = Some t)"
    by (cases "pending s") simp_all
  then show ?thesis by blast
next
  case MWait
  show ?thesis
  proof (cases "main_wg s = 0")
    case True
    with MWait have "\<exists>t. sys_move MainNext s = Some t" by (simp add: main_next_def)
    then show ?thesis by blast
  next
    case False
    moreover have "main_wg s = sum_list (map open_w (threads s))"
      using assms(1) by (simp add: sched_inv_def threads_inv_def)
    ultimately have "\<not> (\<forall>t \<in> set (threads s). open_w t = 0)" by simp
    then obtain t where "t \<in> set (threads s)" "open_w t \<noteq> 0" by blast
    then obtain i where "i < length (threads s)" "open_w (threads s ! i) \<noteq> 0"
      by (metis in_set_conv_nth)
    then have "i < length (threads s)" "\<not> ct_done (threads s ! i)"
      by (simp_all add: open_w_def split: if_splits)
    with thread_moves [OF assms(1)] MWait show ?thesis by blast
  qed
next
  case MCancel
  then have "\<exists>t. sys_move MainNext s = Some t" by (simp add: main_next_def)
  then show ?thesis by blast
next
  case MSaverWait
  then have "(\<exists>t. sys_move MainNext s = Some t) \<or> (\<exists>t. sys_move SaverStop s = Some t)"
    using assms(1) by (auto simp: main_next_def sched_inv_def saver_inv_def)
  then show ?thesis by blast
next
  case MClose
  then have "\<exists>t. sys_move MainNext s = Some t"
    by (cases "chan_close (rchan s)") (simp_all add: main_next_def)
  then show ?thesis by blast
next
  case MJoin
  then have c: "cclosed (rchan s)" using assms(1) by (simp add: sched_inv_def main_inv_def)
  have "(\<exists>t. sys_move MainNext s = Some t) \<or> (\<exists>t. sys_move Collect s = Some t)"
    using MJoin c by (cases "collector_ended s")
      (auto simp: main_next_def chan_recv_def split: list.split)
  then show ?thesis by blast
qed (use assms in simp)

section \<open>Starting\<close>

definition has_chan :: "testSetup \<Rightarrow> nat option \<Rightarrow> bool" where
  "has_chan su ch \<longleftrightarrow> Action su = actionDORA \<and> SaveLease su \<and> ch \<noteq> None \<and> ch \<noteq> Some 0"

definition runs_ok :: "testSetup \<Rightarrow> client_run list \<Rightarrow> bool" where
  "runs_ok su crs \<longleftrightarrow>
     (\<forall>cr \<in> set crs. run_ok (has_chan su (saveV4Chan su)) (has_chan su (saveV6Chan su)) cr)"

abbreviation su_inv :: "testSetup \<Rightarrow> sys \<Rightarrow> bool" where
  "su_inv su s \<equiv> sched_inv (has_chan su (saveV4Chan su)) (has_chan su (saveV6Chan su)) s \<and> undisturbed s"

lemma start_inv:
  assumes "runs_ok su crs"
  shows "su_inv su (start_sys su crs)"
  using assms
  by (auto simp: sched_inv_defs start_sys_def runs_ok_def has_chan_def chan_there_def
      dialResultChanLen_def undisturbed_def)

interpretation sched_run: terminating_steps
  "\<lambda>s. \<exists>crs. s = start_sys su crs \<and> runs_ok su crs" sys_step "su_inv su" rank for su
proof
  show "\<exists>crs. s = start_sys su crs \<and> runs_ok su crs \<Longrightarrow> su_inv su s" for s
    using start_inv by blast
  show "sys_step s t \<Longrightarrow> su_inv su s \<Longrightarrow> su_inv su t" for s t
    by (erule sys_stepE) (blast intro: sched_inv_move undisturbed_move)
  show "sys_step s t \<Longrightarrow> su_inv su s \<Longrightarrow> rank t < rank s" for s t
    by (erule sys_stepE) (blast intro: rank_move)
qed

lemma sched_reach: "runs_ok su crs \<Longrightarrow> sys_step\<^sup>*\<^sup>* (start_sys su crs) s \<Longrightarrow> su_inv su s"
  using sched_run.inv_reachable by blast

lemma sched_step_or_done:
  assumes "runs_ok su crs" and "sys_step\<^sup>*\<^sup>* (start_sys su crs) s"
  shows "main_at s = MDone \<or> (\<exists>t. sys_step s t)"
proof (cases "main_at s = MDone")
  case False
  note i = sched_reach [OF assms]
  from i have "\<not> (main_at s = MWait \<and> \<not> saver_on s \<and> (\<exists>i j. waits_for_saver i j s))"
    using waiting_saves by (force simp: undisturbed_def sched_inv_def saver_inv_def)
  with sched_progress [OF conjunct1 [OF i] False] obtain m t where "sys_move m s = Some t" by blast
  moreover have "\<not> crashed s" using i by (simp add: sched_inv_def)
  ultimately show ?thesis using False sys_step.move by blast
qed simp

lemma start_tot:
  "tot_results (start_sys su crs) = sum_list (map (scripts_load res_w \<circ> cr_scripts) crs)"
  "tot_saves (start_sys su crs) = sum_list (map (scripts_load save_w \<circ> cr_scripts) crs)"
  by (simp_all add: tot_results_def tot_saves_def start_sys_def load_def save_buf_def
      split: option.split)

lemma tot_reach:
  assumes "runs_ok su crs" and "sys_step\<^sup>*\<^sup>* (start_sys su crs) s"
  shows "tot_results s = tot_results (start_sys su crs) \<and> tot_saves s = tot_saves (start_sys su crs)"
  using assms(2)
proof (induction rule: rtranclp_induct)
  case (step t u)
  from sched_reach [OF assms(1) step(1)] step(2,3) tot_move show ?case
    by (auto elim!: sys_stepE)
qed simp

lemma empty_scripts_load: "\<forall>sc \<in> set scs. sc = [] \<Longrightarrow> scripts_load w scs = 0"
  by (induction scs) simp_all

text \<open>Once the clients have ended nothing is left to do; at the end the channel of results is empty.\<close>

lemma ended_load:
  assumes "sched_inv c4 c6 s" and "main_at s \<notin> {MStart, MWait}"
  shows "load w s = 0"
proof -
  have m: "main_wg s = 0" "pending s = []"
    using assms by (auto simp: sched_inv_def main_inv_def)
  have t: "thread_load w t = 0" if "t \<in> set (threads s)" for t
  proof -
    have "sum_list (map open_w (threads s)) = 0"
      using assms(1) m(1) by (simp add: sched_inv_def threads_inv_def)
    then have "open_w t = 0" using that by simp
    moreover have ok: "thread_ok c4 c6 t"
      using assms(1) that by (simp add: sched_inv_def threads_inv_def)
    ultimately have "ct_todo t = []" "ct_wg t = 0"
      by (simp_all add: thread_ok_def open_w_def split: if_splits)
    moreover from this ok have "\<forall>sc \<in> set (ct_live t). sc = []"
      using done_live_empty [of "ct_live t" c4 c6] by (auto simp: thread_ok_def)
    then have "scripts_load w (ct_live t) = 0"
      by (rule empty_scripts_load)
    ultimately show ?thesis by (simp add: thread_load_def)
  qed
  have "sum_list (map (thread_load w) ts) = 0" if "\<forall>t \<in> set ts. thread_load w t = 0" for ts
    using that by (induction ts) auto
  with t m(2) show ?thesis by (simp add: load_def)
qed

lemma done_empty:
  assumes "sched_inv c4 c6 s" and "main_at s = MDone"
  shows "load w s = 0" "cbuf (rchan s) = []"
  using ended_load [OF assms(1)] assms by (auto simp: sched_inv_def main_inv_def)

section \<open>The dials of the clients\<close>

lemma allowed_simps [simp]:
  "saves_allowed c4 c6 []"
  "saves_allowed c4 c6 (xs @ ys) \<longleftrightarrow> saves_allowed c4 c6 xs \<and> saves_allowed c4 c6 ys"
  "saves_allowed c4 c6 (EvNow t # xs) \<longleftrightarrow> saves_allowed c4 c6 xs"
  "saves_allowed c4 c6 (EvSend6 m # xs) \<longleftrightarrow> saves_allowed c4 c6 xs"
  "saves_allowed c4 c6 (EvRequest4 # xs) \<longleftrightarrow> saves_allowed c4 c6 xs"
  "saves_allowed c4 c6 (map EvNet ops)"
  "saves_allowed c4 c6 (report v6 act ex i u f wg)"
  by (auto simp: saves_allowed_def)

lemma allowed_abind:
  "saves_allowed c4 c6 (fst m) \<Longrightarrow> (\<And>x. saves_allowed c4 c6 (fst (f x)))
     \<Longrightarrow> saves_allowed c4 c6 (fst (abind m f))"
  by (cases "(m, f)" rule: abind.cases) (auto split: prod.splits, metis fst_conv)

lemma allowed_lift [simp]: "saves_allowed c4 c6 (fst (lift_err h r))"
  by (cases r) auto

lemma allowed_apply: "saves_allowed c4 c6 (fst (apply_ops p))"
  by (simp add: apply_ops_def split: prod.split)

lemma allowed_key_id: "saves_allowed c4 c6 (fst (key_id W ec))"
  by (simp add: key_id_def split: option.split)

lemma allowed_send4: "saves_allowed (ch \<noteq> None) c6 (fst (send_lease W ch ec (\<lambda>i. Saved4 i l)))"
proof (cases ch)
  case (Some n)
  have "saves_allowed True c6 [EvSave (Saved4 i l)]" for i by (simp add: saves_allowed_def)
  with Some show ?thesis
    by (simp add: send_lease_def) (intro allowed_abind, simp_all add: allowed_key_id)
qed (simp add: send_lease_def)

lemma allowed_send6: "saves_allowed c4 (ch \<noteq> None) (fst (send_lease W ch ec (\<lambda>i. Saved6 i l)))"
proof (cases ch)
  case (Some n)
  have "saves_allowed c4 True [EvSave (Saved6 i l)]" for i by (simp add: saves_allowed_def)
  with Some show ?thesis
    by (simp add: send_lease_def) (intro allowed_abind, simp_all add: allowed_key_id)
qed (simp add: send_lease_def)

lemma allowed_exchange6: "saves_allowed c4 c6 (fst (exchange6 W su c sol))"
  unfolding exchange6_def by (intro allowed_abind) simp_all

lemma allowed_get_reply: "saves_allowed c4 c6 (fst (get_reply W su dc c))"
  unfolding get_reply_def by (intro allowed_abind) (simp_all add: allowed_exchange6)

lemma dialv4_allowed: "saves_allowed (saveV4Chan su \<noteq> None) c6 (fst (snd (dialv4 W su dc)))"
proof (cases "d4 dc")
  case (Some c)
  have "saves_allowed (saveV4Chan su \<noteq> None) c6 (fst (snd (dialv4_body W su dc c)))"
  proof (cases "Request4 W c (dora_mods su (cfg dc))")
    case (Some lease)
    then show ?thesis
      by (simp add: dialv4_body_def Let_def del: not_None_eq)
        (intro conjI impI allowed_abind allowed_send4, simp add: allowed_apply)
  qed (simp add: dialv4_body_def)
  then show ?thesis by (auto simp: dialv4_def Some split: prod.splits)
qed (simp add: dialv4_def saves_allowed_def)

lemma dialv6_allowed: "saves_allowed c4 (saveV6Chan su \<noteq> None) (fst (snd (dialv6 W su dc)))"
proof (cases "d6 dc")
  case (Some c)
  have "saves_allowed c4 (saveV6Chan su \<noteq> None) (fst (snd (dialv6_body W su dc c)))"
  proof -
    obtain evs r where g: "get_reply W su dc c = (evs, r)" by (metis prod.exhaust)
    have a: "saves_allowed c4 (saveV6Chan su \<noteq> None) evs"
      using allowed_get_reply [of c4 "saveV6Chan su \<noteq> None" W su dc c] by (simp add: g)
    show ?thesis
    proof (cases r)
      case (Ok reply)
      with a show ?thesis
        by (simp add: dialv6_body_def Let_def g del: not_None_eq)
          (intro conjI impI allowed_abind allowed_send6, simp add: allowed_apply)
    qed (use a in \<open>simp_all add: dialv6_body_def g\<close>)
  qed
  then show ?thesis by (auto simp: dialv6_def Some split: prod.splits)
qed (simp add: dialv6_def saves_allowed_def)

text \<open>The channels of leases exist only when leases are saved, and hold something.\<close>

definition save_consistent :: "testSetup \<Rightarrow> bool" where
  "save_consistent su \<longleftrightarrow>
     Action su = actionDORA
     \<and> (saveV4Chan su \<noteq> None \<longrightarrow> has_chan su (saveV4Chan su))
     \<and> (saveV6Chan su \<noteq> None \<longrightarrow> has_chan su (saveV6Chan su))"

definition calm :: "(DClient \<Rightarrow> world) \<Rightarrow> testSetup \<Rightarrow> DClient \<Rightarrow> bool" where
  "calm W su dc \<longleftrightarrow>
     snd (snd (dialv4 (W dc) su dc)) \<noteq> Panic \<and> snd (snd (dialv6 (W dc) su dc)) \<noteq> Panic"

definition dora_runs :: "(DClient \<Rightarrow> world) \<Rightarrow> testSetup \<Rightarrow> DClient list \<Rightarrow> client_run list" where
  "dora_runs W su dcs = map (\<lambda>dc. dialAll (W dc) su dc) dcs"

lemma script_of_calm: "snd (snd p) \<noteq> Panic \<Longrightarrow> script_of p = map Do (fst (snd p))"
  by (auto simp: script_of_def split: prod.split)

lemma allowed_mono: "saves_allowed c4 c6 evs \<Longrightarrow> (c4 \<longrightarrow> b4) \<Longrightarrow> (c6 \<longrightarrow> b6) \<Longrightarrow> saves_allowed b4 b6 evs"
  by (fastforce simp: saves_allowed_def split: saved.splits)

lemma dialAll_ok:
  assumes "save_consistent su" and "calm W su dc"
  shows "run_ok (has_chan su (saveV4Chan su)) (has_chan su (saveV6Chan su)) (dialAll (W dc) su dc)"
proof -
  let ?a = "has_chan su (saveV4Chan su)" and ?b = "has_chan su (saveV6Chan su)"
  have "saves_allowed ?a ?b (fst (snd (dialv4 (W dc) su dc)))"
    by (rule allowed_mono [OF dialv4_allowed [of su False]])
      (use assms(1) in \<open>simp_all add: save_consistent_def\<close>)
  from script_ok_tail [OF dora4.script this]
  have 4: "tail_ok ?a ?b (script_of (dialv4 (W dc) su dc)) \<and> script_of (dialv4 (W dc) su dc) \<noteq> []"
    if "d4 dc \<noteq> None"
    using that assms(2) by (simp add: script_of_calm calm_def)
  have "saves_allowed ?a ?b (fst (snd (dialv6 (W dc) su dc)))"
    by (rule allowed_mono [OF dialv6_allowed [of False su]])
      (use assms(1) in \<open>simp_all add: save_consistent_def\<close>)
  from script_ok_tail [OF dora6.script this]
  have 6: "tail_ok ?a ?b (script_of (dialv6 (W dc) su dc)) \<and> script_of (dialv6 (W dc) su dc) \<noteq> []"
    if "d6 dc \<noteq> None"
    using that assms(2) by (simp add: script_of_calm calm_def)
  from 4 6 show ?thesis by (auto simp: run_ok_def dialAll_def ordered_def)
qed

lemma dora_runs_ok:
  "save_consistent su \<Longrightarrow> \<forall>dc \<in> set dcs. calm W su dc \<Longrightarrow> runs_ok su (dora_runs W su dcs)"
  by (auto simp: runs_ok_def dora_runs_def intro: dialAll_ok)

text \<open>A run of one client with both protocols that saves its leases, to its end.\<close>

definition example_run_conf :: testSetup where
  "example_run_conf = example_run_setup\<lparr>SaveLease := True\<rparr>"

definition example_moves :: "move list" where
  "example_moves = [StartClient, Spawn 0] @ replicate 7 (Act 0 0) @ [AllStarted, Spawn 0]
     @ replicate 7 (Act 0 1)
     @ [ClientDone 0, Save6, Save4, MainNext, MainNext, SaverStop, MainNext, MainNext, Collect, Collect,
        Collect, MainNext]"

abbreviation example_run_start :: sys where
  "example_run_start \<equiv> start_sys example_run_conf
     (dora_runs (\<lambda>_. example_world) example_run_conf [example_dc])"

abbreviation example_run_end :: sys where
  "example_run_end \<equiv> the (run_moves example_moves example_run_start)"

lemma example_save_consistent: "save_consistent example_run_conf"
  by code_simp

lemma example_calm: "\<forall>dc \<in> set [example_dc]. calm (\<lambda>_. example_world) example_run_conf dc"
  by code_simp

lemma example_run_reach: "sys_step\<^sup>*\<^sup>* example_run_start example_run_end"
proof -
  have "\<not> Option.is_none (run_moves example_moves example_run_start)" by code_simp
  then have "run_moves example_moves example_run_start = Some example_run_end"
    by (simp add: Option.is_none_def)
  then show ?thesis by (rule run_moves_reach)
qed

lemma example_run_done: "main_at example_run_end = MDone"
  by code_simp

section \<open>Properties of a dial run\<close>



text \<open>
  C2: every dial run ends: no run has more steps than the rank of its start, so the main goroutine
  returns whatever the order of the moves.
\<close>

theorem dora_terminates:
  assumes "save_consistent su" and "\<forall>dc \<in> set dcs. calm W su dc"
  shows "(\<forall>n s. (sys_step ^^ n) (start_sys su (dora_runs W su dcs)) s
            \<longrightarrow> n \<le> rank (start_sys su (dora_runs W su dcs)))
    \<and> (\<exists>s. sys_step\<^sup>*\<^sup>* (start_sys su (dora_runs W su dcs)) s \<and> main_at s = MDone)"
proof -
  let ?s = "start_sys su (dora_runs W su dcs)"
  note ok = dora_runs_ok [OF assms]
  have "n + rank s \<le> rank ?s" if "(sys_step ^^ n) ?s s" for n s
    using sched_run.bounded_run [OF that] start_inv [OF ok] by blast
  then have b: "n \<le> rank ?s" if "(sys_step ^^ n) ?s s" for n s using that by fastforce
  have "\<exists>s. sys_step\<^sup>*\<^sup>* ?s s \<and> main_at s = MDone"
  proof (rule ccontr)
    assume never: "\<not> ?thesis"
    have "\<exists>s. (sys_step ^^ n) ?s s" for n
    proof (induction n)
      case (Suc n)
      then obtain s where s: "(sys_step ^^ n) ?s s" by blast
      then have "sys_step\<^sup>*\<^sup>* ?s s" by (metis rtranclp_power)
      with never sched_step_or_done [OF ok this] obtain t where "sys_step s t" by blast
      with s show ?case by (meson relpowp_Suc_I)
    qed simp
    then obtain s where "(sys_step ^^ Suc (rank ?s)) ?s s" by blast
    from b [OF this] show False by simp
  qed
  with b show ?thesis by blast
qed

theorem dora_terminates_witness:
  "\<exists>s. sys_step\<^sup>*\<^sup>* example_run_start s \<and> main_at s = MDone"
  using dora_terminates [OF example_save_consistent example_calm] by blast

text \<open>The results and leases of the dials, and the number of transactions.\<close>

definition dial_events :: "(DClient \<Rightarrow> world) \<Rightarrow> testSetup \<Rightarrow> DClient list \<Rightarrow> ev list list" where
  "dial_events W su dcs =
     concat (map (\<lambda>dc. (if d4 dc \<noteq> None then [fst (snd (dialv4 (W dc) su dc))] else [])
                       @ (if d6 dc \<noteq> None then [fst (snd (dialv6 (W dc) su dc))] else [])) dcs)"

lemma script_load_res: "script_load res_w (map Do evs) = mset (results evs)"
proof (induction evs)
  case (Cons e evs)
  have "results (e # evs) = results [e] @ results evs" using results_append [of "[e]" evs] by simp
  with Cons show ?case by (simp add: res_w_results)
qed simp

lemma script_load_save: "script_load save_w (map Do evs) = mset (saves evs)"
proof (induction evs)
  case (Cons e evs)
  have "saves (e # evs) = saves [e] @ saves evs" using saves_append [of "[e]" evs] by simp
  moreover have "save_w (Do e) = mset (saves [e])" by (cases e) auto
  ultimately show ?case using Cons by simp
qed simp

lemma dora_load:
  assumes "\<forall>dc \<in> set dcs. calm W su dc" and "\<And>evs. script_load w (map Do evs) = mset (f evs)"
  shows "sum_list (map (scripts_load w \<circ> cr_scripts) (dora_runs W su dcs))
    = mset (concat (map f (dial_events W su dcs)))"
  using assms(1)
proof (induction dcs)
  case (Cons dc dcs)
  have "scripts_load w (cr_scripts (dialAll (W dc) su dc))
      = mset (concat (map f (dial_events W su [dc])))"
    using Cons.prems
    by (simp add: dialAll_def ordered_def dial_events_def calm_def script_of_calm assms(2) ac_simps)
  with Cons show ?case by (simp add: dora_runs_def dial_events_def)
qed (simp add: dora_runs_def dial_events_def)

lemma dial_events_script:
  assumes "evs \<in> set (dial_events W su dcs)"
  shows "script_ok evs"
  using assms dora4.script dora6.script by (auto simp: dial_events_def split: if_splits)

lemma concat_results_length:
  "\<forall>evs \<in> set evss. script_ok evs \<Longrightarrow> length (concat (map results evss)) = length evss"
  by (induction evss) (auto simp: script_ok_results)

lemma dials_count:
  "length (concat (map results (dial_events W su dcs)))
     = length (filter (\<lambda>dc. d4 dc \<noteq> None) dcs) + length (filter (\<lambda>dc. d6 dc \<noteq> None) dcs)"
proof -
  have "length (concat (map results (dial_events W su dcs))) = length (dial_events W su dcs)"
    by (rule concat_results_length) (blast intro: dial_events_script)
  also have "\<dots> = length (filter (\<lambda>dc. d4 dc \<noteq> None) dcs) + length (filter (\<lambda>dc. d6 dc \<noteq> None) dcs)"
    by (induction dcs) (simp_all add: dial_events_def)
  finally show ?thesis .
qed

lemma all_collected:
  assumes "\<forall>dc \<in> set dcs. calm W su dc" and "sched_inv c4 c6 s" and "main_at s = MDone"
    and "tot_results s = tot_results (start_sys su (dora_runs W su dcs))"
  shows "mset (collected s) = mset (concat (map results (dial_events W su dcs)))
    \<and> Total (summary (collectResults f (collected s) (start_collector avg far)))
        = int (length (filter (\<lambda>dc. d4 dc \<noteq> None) dcs) + length (filter (\<lambda>dc. d6 dc \<noteq> None) dcs))"
proof -
  have "tot_results s = mset (concat (map results (dial_events W su dcs)))"
    using assms(4) start_tot(1) dora_load [OF assms(1) script_load_res] by metis
  moreover have "tot_results s = mset (collected s)"
    by (simp add: tot_results_def done_empty [OF assms(2,3)])
  ultimately have m: "mset (collected s) = mset (concat (map results (dial_events W su dcs)))"
    by simp
  then have "length (collected s) = length (concat (map results (dial_events W su dcs)))"
    by (rule mset_eq_length)
  then show ?thesis using m by (simp only: dials_count collected_numbers(1) of_nat_eq_iff simp_thms)
qed

lemma dora_collected:
  assumes "save_consistent su" and "\<forall>dc \<in> set dcs. calm W su dc"
    and "sys_step\<^sup>*\<^sup>* (start_sys su (dora_runs W su dcs)) s" and "main_at s = MDone"
  shows "mset (collected s) = mset (concat (map results (dial_events W su dcs)))
    \<and> Total (summary (collectResults f (collected s) (start_collector avg far)))
        = int (length (filter (\<lambda>dc. d4 dc \<noteq> None) dcs) + length (filter (\<lambda>dc. d6 dc \<noteq> None) dcs))"
  using all_collected [OF assms(2) conjunct1 [OF sched_reach] assms(4)]
    tot_reach dora_runs_ok [OF assms(1,2)] assms(3) by metis

text \<open>
  C3: when a dial run has ended, the collector has taken exactly the results of all dials, each
  once, so the summary's total is the number of dials (one per client and enabled protocol) whatever
  the order in which the results came.
\<close>

theorem dora_all_results:
  assumes "save_consistent su" and "\<forall>dc \<in> set dcs. calm W su dc"
    and "sys_step\<^sup>*\<^sup>* (start_sys su (dora_runs W su dcs)) s" and "main_at s = MDone"
  shows "mset (collected s) = mset (concat (map results (dial_events W su dcs)))
    \<and> Total (summary (collectResults f (collected s) (start_collector avg far)))
        = int (length (filter (\<lambda>dc. d4 dc \<noteq> None) dcs) + length (filter (\<lambda>dc. d6 dc \<noteq> None) dcs))"
  by (rule dora_collected [OF assms])

theorem dora_all_results_witness:
  "Total (summary (collectResults (\<lambda>a t. a) (collected example_run_end) (start_collector () 99))) = 2"
proof -
  have "length (filter (\<lambda>dc. d4 dc \<noteq> None) [example_dc]) + length (filter (\<lambda>dc. d6 dc \<noteq> None) [example_dc]) = 2"
    by code_simp
  with dora_all_results [OF example_save_consistent example_calm example_run_reach example_run_done,
      of "\<lambda>a t. a" "()" 99]
  show ?thesis by simp
qed

text \<open>
  C4: no lease a dial hands over is lost on the way but what the cancelled saver has left in the two
  channels: when a dial run has ended, the leases stored and those still in a channel are exactly
  the leases of all dials.
\<close>

theorem dora_leases_accounted:
  assumes "save_consistent su" and "\<forall>dc \<in> set dcs. calm W su dc"
    and "sys_step\<^sup>*\<^sup>* (start_sys su (dora_runs W su dcs)) s" and "main_at s = MDone"
  shows "mset (stored s @ save_buf (s4chan s) @ save_buf (s6chan s))
    = mset (concat (map saves (dial_events W su dcs)))"
proof -
  note ok = dora_runs_ok [OF assms(1,2)]
  note i = sched_reach [OF ok assms(3)]
  have "tot_saves s = mset (concat (map saves (dial_events W su dcs)))"
    using tot_reach [OF ok assms(3)] start_tot(2) dora_load [OF assms(2) script_load_save] by metis
  then show ?thesis by (simp add: tot_saves_def done_empty [OF conjunct1 [OF i] assms(4)] add.assoc)
qed

theorem dora_leases_accounted_witness:
  "length (stored example_run_end) = 2"
proof -
  have "save_buf (s4chan example_run_end) = []" "save_buf (s6chan example_run_end) = []"
    by code_simp+
  moreover have "length (concat (map saves
      (dial_events (\<lambda>_. example_world) example_run_conf [example_dc]))) = 2"
    by code_simp
  ultimately show ?thesis
    using arg_cong [OF dora_leases_accounted [OF example_save_consistent example_calm
        example_run_reach example_run_done], of size]
    by simp
qed

section \<open>Releases, renewals and rebindings\<close>

text \<open>
  A transaction that is about to send its result on the closed channel, after effects \<open>pre\<close>
  that cannot block.
\<close>

definition doomed :: "nat \<Rightarrow> nat \<Rightarrow> ev list \<Rightarrow> sys \<Rightarrow> bool" where
  "doomed i j pre s \<longleftrightarrow>
     \<not> crashed s \<and> main_at s = MJoin \<and> cclosed (rchan s)
     \<and> i < length (threads s) \<and> j < length (ct_live (threads s ! i))
     \<and> (\<exists>r post. ct_live (threads s ! i) ! j = map Do pre @ Do (EvResult r) # post)
     \<and> plain pre \<and> saves pre = []"

lemma plain_step:
  assumes "plain (e # pre)" and "saves (e # pre) = []"
  shows "do_ev i e s = Some s" "plain pre" "saves pre = []"
  using assms by (cases e; auto simp: plain_def)+

lemma doomed_crashes: "doomed i j pre s \<Longrightarrow> \<exists>t. sys_step\<^sup>*\<^sup>* s t \<and> crashed t"
proof (induction pre arbitrary: s)
  case Nil
  then obtain r post where l: "ct_live (threads s ! i) ! j = Do (EvResult r) # post"
    by (auto simp: doomed_def)
  let ?t = "(popped_sys i j post s)\<lparr>crashed := True\<rparr>"
  have "sys_move (Act i j) s = Some ?t"
    using Nil l by (simp add: doomed_def chan_send_def)
  moreover have "\<not> crashed s" "main_at s \<noteq> MDone" using Nil by (auto simp: doomed_def)
  ultimately have "sys_step s ?t" by (rule sys_step.move [rotated 2])
  then show ?case by (intro exI [of _ ?t]) simp
next
  case (Cons e pre)
  then obtain r post where l: "ct_live (threads s ! i) ! j = Do e # map Do pre @ Do (EvResult r) # post"
    by (auto simp: doomed_def)
  let ?t = "popped_sys i j (map Do pre @ Do (EvResult r) # post) s"
  have p: "plain (e # pre)" "saves (e # pre) = []" using Cons.prems by (simp_all add: doomed_def)
  have "sys_move (Act i j) s = Some ?t"
    using Cons.prems l plain_step(1) [OF p] by (simp add: doomed_def)
  moreover have "\<not> crashed s" "main_at s \<noteq> MDone" using Cons.prems by (auto simp: doomed_def)
  ultimately have st: "sys_step s ?t" by (rule sys_step.move [rotated 2])
  have "doomed i j pre ?t" using Cons.prems plain_step(2,3) [OF p] by (auto simp: doomed_def)
  from Cons.IH [OF this] st show ?case by (meson converse_rtranclp_into_rtranclp)
qed

text \<open>
  A client's goroutine that does not wait for its transactions: the main goroutine closes the
  channel of results while they run.
\<close>

definition reports_later :: "script \<Rightarrow> bool" where
  "reports_later sc \<longleftrightarrow>
     (\<exists>pre r post. sc = map Do pre @ Do (EvResult r) # post \<and> plain pre \<and> saves pre = [])"

fun spawn_all :: "script list \<Rightarrow> move list" where
  "spawn_all [] = []"
| "spawn_all (sc # scs) = Spawn 0 # spawn_all scs"

lemma run_moves_append:
  "run_moves (ms @ ns) s = (case run_moves ms s of None \<Rightarrow> None | Some t \<Rightarrow> run_moves ns t)"
  by (induction ms arbitrary: s) (auto split: option.split)

lemma spawn_all_run:
  assumes "threads s = [t]" "\<not> ct_done t" "\<not> crashed s" "main_at s = MStart"
  shows "run_moves (spawn_all (ct_todo t)) s
    = Some (s\<lparr>threads := [t\<lparr>ct_todo := [], ct_live := ct_live t @ ct_todo t,
                           ct_wg := ct_wg t + length (ct_todo t)\<rparr>]\<rparr>)"
  using assms
proof (induction "ct_todo t" arbitrary: s t)
  case Nil
  then have "t\<lparr>ct_todo := [], ct_live := ct_live t @ [], ct_wg := ct_wg t + 0\<rparr> = t" by simp
  with Nil show ?case by (cases s) simp
next
  case (Cons sc scs)
  let ?t = "t\<lparr>ct_todo := scs, ct_live := ct_live t @ [sc], ct_wg := ct_wg t + 1\<rparr>"
  have "run_moves (spawn_all (ct_todo ?t)) (s\<lparr>threads := [?t]\<rparr>) = Some ((s\<lparr>threads := [?t]\<rparr>)
      \<lparr>threads := [?t\<lparr>ct_todo := [], ct_live := ct_live ?t @ ct_todo ?t,
         ct_wg := ct_wg ?t + length (ct_todo ?t)\<rparr>]\<rparr>)"
    by (rule Cons.hyps(1)) (use Cons.prems in simp_all)
  then show ?case
    using Cons.prems Cons.hyps(2) [symmetric] by (simp add: upd_def)
qed

lemma unwaited_crashes:
  assumes "cr_scripts cr = sc # scs" and "reports_later sc" and "\<not> cr_waits cr"
    and "Action su \<noteq> actionDORA"
  shows "\<exists>s. sys_step\<^sup>*\<^sup>* (start_sys su [cr]) s \<and> crashed s"
proof -
  let ?u = "\<lparr>ct_todo = [], ct_live = sc # scs, ct_wg = Suc (length scs), ct_waits = False, ct_done = True\<rparr>"
  define s1 where "s1 = (start_sys su [cr])\<lparr>pending := [], threads := [new_thread cr], main_wg := 1\<rparr>"
  have 1: "run_moves [StartClient] (start_sys su [cr]) = Some s1"
    by (simp add: start_sys_def s1_def)
  have 2: "run_moves (spawn_all (sc # scs)) s1 = Some (s1\<lparr>threads := [?u\<lparr>ct_done := False\<rparr>]\<rparr>)"
    using spawn_all_run [of s1 "new_thread cr"] assms(1,3)
    by (simp add: s1_def new_thread_def start_sys_def)
  define s2 where "s2 = s1\<lparr>threads := [?u], main_wg := 0, rchan := (make_chan dialResultChanLen)
      \<lparr>cclosed := True\<rparr>, main_at := MJoin\<rparr>"
  have 3: "run_moves [ClientDone 0, AllStarted, MainNext, MainNext] (s1\<lparr>threads := [?u\<lparr>ct_done := False\<rparr>]\<rparr>)
      = Some s2"
    using assms(4)
    by (simp add: s1_def s2_def start_sys_def upd_def main_next_def chan_close_def)
  have "run_moves ([StartClient] @ spawn_all (sc # scs) @ [ClientDone 0, AllStarted, MainNext, MainNext])
      (start_sys su [cr]) = Some s2"
    unfolding run_moves_append 1 2 option.case 3 ..
  then have r: "sys_step\<^sup>*\<^sup>* (start_sys su [cr]) s2" by (rule run_moves_reach)
  from assms(2) obtain pre where "doomed 0 0 pre s2"
    by (auto simp: doomed_def reports_later_def s2_def s1_def start_sys_def)
  from doomed_crashes [OF this] r show ?thesis by (meson rtranclp_trans)
qed

text \<open>The scripts of a loaded client: its lease is there when its DHCP client was made.\<close>

lemma three_conns_keeps:
  assumes "three_conns su dc = Ok dc'"
  shows "d4 dc' = d4 dc" "d6 dc' = d6 dc" "d4Lease dc' = d4Lease dc" "d6Lease dc' = d6Lease dc"
    "d4OtherClnt dc' = d4OtherClnt dc" "d6OtherClnt dc' = d6OtherClnt dc"
  using assms
  by (auto simp: three_conns_def gbind_eq_Ok split: if_splits option.splits)

lemma fatal_Ok [simp]: "fatal r = Ok x \<longleftrightarrow> r = Ok x"
  by (cases r) (simp_all add: fatal_def)

lemma createV4_keeps:
  assumes "createV4OtherClnt NL B su act dc = Ok dc'"
  shows "ready4 dc'" "d4 dc' = d4 dc" "d6 dc' = d6 dc" "d6Lease dc' = d6Lease dc"
    "d6OtherClnt dc' = d6OtherClnt dc"
  using assms
  by (auto simp: createV4OtherClnt_def Let_def gbind_eq_Ok ready4_def split: option.splits)

lemma createV6_keeps:
  assumes "createV6OtherClnt NL su dc = Ok dc'"
  shows "d4 dc' = d4 dc" "d6 dc' = d6 dc" "d6Lease dc' = d6Lease dc" "d6Lease dc \<noteq> None"
    "d4OtherClnt dc' = d4OtherClnt dc" "d4Lease dc' = d4Lease dc"
  using assms
  by (auto simp: createV6OtherClnt_def Let_def gbind_eq_Ok split: option.splits if_splits)

lemma three_clients_ready:
  assumes "three_clients NL B su act dc = Ok dc'" and "d4OtherClnt dc = None" "d6OtherClnt dc = None"
  shows "d4OtherClnt dc' \<noteq> None \<Longrightarrow> ready4 dc'" "d6OtherClnt dc' \<noteq> None \<Longrightarrow> d6Lease dc' \<noteq> None"
    "d4 dc' = d4 dc" "d6 dc' = d6 dc"
proof -
  from assms(1) obtain dc1 where
    1: "(if d4Lease dc \<noteq> None \<and> EnableV4 su then fatal (createV4OtherClnt NL B su act dc) else Ok dc) = Ok dc1"
    and 2: "(if d6Lease dc1 \<noteq> None \<and> EnableV6 su then fatal (createV6OtherClnt NL su dc1) else Ok dc1) = Ok dc'"
    by (auto simp: three_clients_def gbind_eq_Ok)
  have a: "d4OtherClnt dc1 \<noteq> None \<longrightarrow> ready4 dc1" "d4 dc1 = d4 dc" "d6 dc1 = d6 dc"
    "d6OtherClnt dc1 = None"
    using 1 assms(2,3) by (auto dest: createV4_keeps split: if_splits)
  have b: "ready4 dc' = ready4 dc1" "d4OtherClnt dc' = d4OtherClnt dc1" "d4 dc' = d4 dc1"
    "d6 dc' = d6 dc1" "d6OtherClnt dc' \<noteq> None \<longrightarrow> d6Lease dc' \<noteq> None"
    using 2 a(4) createV6_keeps [of NL su dc1 dc']
    by (auto simp: ready4_def split: if_splits)
  show "d4OtherClnt dc' \<noteq> None \<Longrightarrow> ready4 dc'" "d6OtherClnt dc' \<noteq> None \<Longrightarrow> d6Lease dc' \<noteq> None"
    "d4 dc' = d4 dc" "d6 dc' = d6 dc"
    using a b by simp_all
qed

lemma reports_later_script:
  assumes "\<exists>pre start finish. plain pre \<and> fst (snd p) = pre @ report v6 act ex i start finish True"
    and "saves (fst (snd p)) = []"
  shows "reports_later (script_of p)"
proof -
  from assms obtain pre start finish where p: "plain pre"
    "fst (snd p) = pre @ report v6 act ex i start finish True" "saves pre = []" by auto
  let ?r = "\<lparr>IsDHCPv6 = v6, action = act, ExecResult = ex, L2EP = i, StartTime = start, FinishTime = finish\<rparr>"
  have "script_of p = map Do (pre @ [EvNow finish]) @ Do (EvResult ?r) #
      (Do EvDone # (if snd (snd p) = Panic then [Crash] else []))"
    using p(2) by (auto simp: script_of_def report_def done_evs_def split: prod.splits)
  moreover have "plain (pre @ [EvNow finish])" "saves (pre @ [EvNow finish]) = []"
    using p(1,3) by simp_all
  ultimately show ?thesis unfolding reports_later_def by blast
qed

lemma replicate_saves [simp]: "saves (replicate n EvRelease4) = []" "saves (replicate n (EvSend6 m)) = []"
  by (induction n) simp_all

lemma done_saves [simp]: "saves (done_evs wg) = []"
  by (simp add: done_evs_def)

lemma release_saves:
  "saves (fst (snd (releasev4 W wg dc))) = []"
  "saves (fst (snd (renewOrRebindv4 W su wg act dc))) = []"
  "saves (fst (snd (releaseOrRenewV6 W wg mt dc))) = []"
  by (auto simp: releasev4_def renewOrRebindv4_def releaseOrRenewV6_def Let_def
      split: option.split prod.split gores.split)

lemma three_scripts:
  assumes "act \<in> {actionRelease, actionRenew, actionRebind}"
  shows "ready4 dc \<Longrightarrow> reports_later (three_v4 W su act dc)"
    "d6Lease dc \<noteq> None \<Longrightarrow> reports_later (three_v6 W act dc)"
proof -
  assume "ready4 dc"
  with assms show "reports_later (three_v4 W su act dc)"
    by (auto simp: three_v4_def intro!: reports_later_script release4.reports rebind4.reports release_saves)
next
  assume "d6Lease dc \<noteq> None"
  then show "reports_later (three_v6 W act dc)"
    unfolding three_v6_def
    by (intro reports_later_script [OF release6.reports] release_saves)
qed

text \<open>
  C21: releasing, renewing or rebinding saved leases can end the program with a panic: a client made
  from a saved lease has no DHCP client of its own for dialling, and only those decide whether its
  goroutine waits for its transactions, so the channel of results can be closed before the first
  transaction sends its result.
\<close>

theorem three_r_can_panic:
  assumes "threeRAll W NL su act (loaded_client i fl) = Ok cr" and "cr_scripts cr \<noteq> []"
    and "act \<in> {actionRelease, actionRenew, actionRebind}" and "Action su = act"
  shows "\<exists>s. sys_step\<^sup>*\<^sup>* (start_sys su [cr]) s \<and> crashed s"
proof -
  from assms(1) obtain dc1 dc2 where 1: "three_conns su (loaded_client i fl) = Ok dc1"
    and 2: "three_clients NL (w_v4 W) su act dc1 = Ok dc2"
    and cr: "cr = \<lparr>cr_scripts = ordered su
             (if d4OtherClnt dc2 \<noteq> None then [three_v4 W su act dc2] else [])
             (if d6OtherClnt dc2 \<noteq> None then [three_v6 W act dc2] else []),
           cr_waits = (d4 dc2 \<noteq> None \<or> d6 dc2 \<noteq> None)\<rparr>"
    by (auto simp: threeRAll_def gbind_eq_Ok)
  note k = three_conns_keeps [OF 1]
  have n: "d4OtherClnt dc1 = None" "d6OtherClnt dc1 = None" "d4 dc1 = None" "d6 dc1 = None"
    using k by (simp_all add: loaded_client_def)
  note r = three_clients_ready [OF 2 n(1,2)]
  have w: "\<not> cr_waits cr" using r(3,4) n(3,4) by (simp add: cr)
  obtain sc scs where sc: "cr_scripts cr = sc # scs" using assms(2) by (cases "cr_scripts cr") auto
  have "reports_later sc"
    using sc three_scripts [OF assms(3)] r(1,2) by (auto simp: cr ordered_def split: if_splits)
  moreover have "Action su \<noteq> actionDORA" using assms(3,4) by auto
  ultimately show ?thesis by (rule unwaited_crashes [OF sc _ w])
qed

definition example_saved :: fullStackLease where
  "example_saved = \<lparr>V4 = Some (newV4Lease\<lparr>Lease4 := Some example_lease4\<rparr>), V6 = None\<rparr>"

definition example_release_setup :: testSetup where
  "example_release_setup = (newDefaultConf 0x8100)\<lparr>Action := actionRelease\<rparr>"

abbreviation example_release :: "(sched_error, client_run) gores" where
  "example_release \<equiv> threeRAll example_world example_netlib example_release_setup actionRelease
     (loaded_client ''02:00:00:00:00:07'' example_saved)"

theorem three_r_can_panic_witness:
  "\<exists>s. sys_step\<^sup>*\<^sup>* (start_sys example_release_setup [the_ok example_release]) s \<and> crashed s"
proof -
  have "is_Ok example_release" by code_simp
  then have 1: "example_release = Ok (the_ok example_release)" by simp
  have "length (cr_scripts (the_ok example_release)) = 1" by code_simp
  then have 2: "cr_scripts (the_ok example_release) \<noteq> []" by auto
  have 3: "Action example_release_setup = actionRelease" by code_simp
  show ?thesis by (rule three_r_can_panic [OF 1 2 _ 3]) simp
qed

end
