(* ===== verification/Flap.thy ===== *)
theory Flap
  imports Run
begin

text \<open>
  Flapping (\<open>sched.go\<close>, the second half of \<open>run\<close> for a dial): after the initial
  dialling every chosen client releases its leases and dials again, for as long as the program
  runs. The saver of leases has ended by then; the collector of results still runs.
\<close>

section \<open>Preparing\<close>

text \<open>
  Every client gets the DHCP clients for its leases, in the order the table is ranged over; the
  first error makes \<open>run\<close> return.
\<close>

definition prepare_client :: "netlib \<Rightarrow> v4api \<Rightarrow> testSetup \<Rightarrow> DClient \<Rightarrow> (sched_error, DClient) gores" where
  "prepare_client NL B su cc =
     gbind (if d4OtherClnt cc = None \<and> d4Lease cc \<noteq> None
            then createV4OtherClnt NL B su actionRelease cc else Ok cc) (\<lambda>cc.
     if d6OtherClnt cc = None \<and> d6Lease cc \<noteq> None then createV6OtherClnt NL su cc else Ok cc)"

fun prepare_flap :: "netlib \<Rightarrow> v4api \<Rightarrow> testSetup \<Rightarrow> DClient list \<Rightarrow> (sched_error, DClient list) gores" where
  "prepare_flap NL B su [] = Ok []"
| "prepare_flap NL B su (cc # ccs) =
     gbind (prepare_client NL B su cc) (\<lambda>cc.
     gbind (prepare_flap NL B su ccs) (\<lambda>ccs. Ok (cc # ccs)))"

text \<open>The loop that starts the flapping clients; its counter \<open>i\<close> is never increased.\<close>

fun choose_clients :: "int \<Rightarrow> int \<Rightarrow> 'a list \<Rightarrow> 'a list" where
  "choose_clients i n [] = []"
| "choose_clients i n (dc # dcs) =
     (if i < n then dc # choose_clients i n dcs else choose_clients i n dcs)"

definition flapping_clients :: "FlappingConf option \<Rightarrow> 'a list \<Rightarrow> 'a list" where
  "flapping_clients f dcs =
     (case f of
        None \<Rightarrow> []
      | Some f \<Rightarrow> if FlapNum f > 0 then choose_clients 0 (FlapNum f) dcs else [])"

text \<open>
  The sleep before a release. \<open>rand.Int63n\<close> panics on an argument that is not positive;
  \<open>rnd n\<close> is the number it returns otherwise.
\<close>

definition flap_sleep :: "(int \<Rightarrow> int) \<Rightarrow> FlappingConf \<Rightarrow> (unit, int) gores" where
  "flap_sleep rnd f =
     (let intervalRange = wrap64 (MaxInterval f - MinInterval f)
      in if intervalRange \<le> 0 then Panic else Ok (wrap64 (MinInterval f + rnd intervalRange)))"

section \<open>One flapping client\<close>

text \<open>
  Where the client's loop is: at its five looks at the context, or returned. Between two of
  them it waits for the transactions it has begun, \<open>f_live\<close>.
\<close>

datatype flap_pc = Poll1 | Poll2 | Poll3 | Poll4 | Poll5 | FlapEnd

record fclient =
  f_dc :: DClient
  f_pc :: flap_pc
  f_live :: "script list"

text \<open>\<open>dialAll(nil)\<close> has returned when both dials have; each sets its own lease.\<close>

definition redialed :: "world \<Rightarrow> testSetup \<Rightarrow> DClient \<Rightarrow> DClient" where
  "redialed W su dc =
     dc\<lparr>d4Lease := (if d4 dc \<noteq> None then d4Lease (fst (dialv4 W su dc)) else d4Lease dc),
        d6Lease := (if d6 dc \<noteq> None then d6Lease (fst (dialv6 W su dc)) else d6Lease dc)\<rparr>"

definition flap_turn :: "world \<Rightarrow> testSetup \<Rightarrow> (int \<Rightarrow> int) \<Rightarrow> FlappingConf \<Rightarrow> bool \<Rightarrow> fclient
    \<Rightarrow> (unit, fclient) gores" where
  "flap_turn W su rnd f done c =
     (if done then Ok (c\<lparr>f_pc := FlapEnd\<rparr>)
      else case f_pc c of
        Poll1 \<Rightarrow> gbind (flap_sleep rnd f) (\<lambda>_. Ok (c\<lparr>f_pc := Poll2\<rparr>))
      | Poll2 \<Rightarrow> Ok (c\<lparr>f_pc := Poll3,
          f_live := (if d4Lease (f_dc c) \<noteq> None then [script_of (releasev4 W False (f_dc c))] else [])\<rparr>)
      | Poll3 \<Rightarrow> Ok (c\<lparr>f_pc := Poll4,
          f_live := (if d6Lease (f_dc c) \<noteq> None
                     then [script_of (releaseOrRenewV6 W False MTRelease (f_dc c))] else [])\<rparr>)
      | Poll4 \<Rightarrow> Ok (c\<lparr>f_pc := Poll5\<rparr>)
      | Poll5 \<Rightarrow> Ok (c\<lparr>f_pc := Poll1, f_live := cr_scripts (dialAll W su (f_dc c)),
          f_dc := redialed W su (f_dc c)\<rparr>)
      | FlapEnd \<Rightarrow> Ok c)"

section \<open>All of them\<close>

text \<open>
  The flapping clients, the channel of results with what the collector has taken, the channels of
  leases that nobody receives from any more, whether the context is done and whether a panic has
  ended the program.
\<close>

record fsys =
  f_clients :: "fclient list"
  f_rchan :: "dialResult gochan"
  f_results :: "dialResult list"
  f_s4 :: "saved gochan option"
  f_s6 :: "saved gochan option"
  f_done :: bool
  f_crashed :: bool

definition flap_start :: "testSetup \<Rightarrow> saved gochan option \<Rightarrow> saved gochan option \<Rightarrow> DClient list
    \<Rightarrow> fsys" where
  "flap_start su c4 c6 dcs =
     \<lparr>f_clients = map (\<lambda>dc. \<lparr>f_dc = dc, f_pc = Poll1, f_live = []\<rparr>) (flapping_clients (Flapping su) dcs),
      f_rchan = make_chan dialResultChanLen, f_results = [], f_s4 = c4, f_s6 = c6,
      f_done = False, f_crashed = False\<rparr>"

text \<open>
  One effect of a transaction: as in the initial dial, except that the wait group is the one of
  \<open>dialAll\<close>, which waits for its transactions (\<open>f_live\<close> above).
\<close>

definition send_or :: "'a gochan option \<Rightarrow> 'a \<Rightarrow> ('a gochan \<Rightarrow> fsys) \<Rightarrow> fsys \<Rightarrow> fsys option" where
  "send_or ch x next s =
     (case ch of
        None \<Rightarrow> None
      | Some c \<Rightarrow>
          (case chan_send c x of
             Sent c' \<Rightarrow> Some (next c')
           | SendBlocks \<Rightarrow> None
           | SendPanics \<Rightarrow> Some (s\<lparr>f_crashed := True\<rparr>)))"

fun do_flap_ev :: "ev \<Rightarrow> fsys \<Rightarrow> fsys option" where
  "do_flap_ev (EvResult r) s = send_or (Some (f_rchan s)) r (\<lambda>c. s\<lparr>f_rchan := c\<rparr>) s"
| "do_flap_ev (EvSave (Saved4 k l)) s = send_or (f_s4 s) (Saved4 k l) (\<lambda>c. s\<lparr>f_s4 := Some c\<rparr>) s"
| "do_flap_ev (EvSave (Saved6 k l)) s = send_or (f_s6 s) (Saved6 k l) (\<lambda>c. s\<lparr>f_s6 := Some c\<rparr>) s"
| "do_flap_ev _ s = Some s"

datatype fmove = Turn nat world "int \<Rightarrow> int" | FAct nat nat | FCollect | Cancel

definition idle :: "fclient \<Rightarrow> bool" where
  "idle c \<longleftrightarrow> (\<forall>sc \<in> set (f_live c). sc = [])"

definition set_client :: "nat \<Rightarrow> fclient \<Rightarrow> fsys \<Rightarrow> fsys" where
  "set_client i c s = s\<lparr>f_clients := (f_clients s)[i := c]\<rparr>"

fun flap_move :: "testSetup \<Rightarrow> FlappingConf \<Rightarrow> fmove \<Rightarrow> fsys \<Rightarrow> fsys option" where
  "flap_move su f (Turn i W rnd) s =
     (if i < length (f_clients s) \<and> f_pc (f_clients s ! i) \<noteq> FlapEnd \<and> idle (f_clients s ! i) then
        (case flap_turn W su rnd f (f_done s) (f_clients s ! i) of
           Ok c \<Rightarrow> Some (set_client i c s)
         | _ \<Rightarrow> Some (s\<lparr>f_crashed := True\<rparr>))
      else None)"
| "flap_move su f (FAct i j) s =
     (if i < length (f_clients s) \<and> j < length (f_live (f_clients s ! i)) then
        (case f_live (f_clients s ! i) ! j of
           [] \<Rightarrow> None
         | Do e # es \<Rightarrow>
             do_flap_ev e (set_client i
               ((f_clients s ! i)\<lparr>f_live := (f_live (f_clients s ! i))[j := es]\<rparr>) s)
         | Crash # es \<Rightarrow> Some (s\<lparr>f_crashed := True\<rparr>))
      else None)"
| "flap_move su f FCollect s =
     (case chan_recv (f_rchan s) of
        Recv r c \<Rightarrow> Some (s\<lparr>f_rchan := c, f_results := f_results s @ [r]\<rparr>)
      | _ \<Rightarrow> None)"
| "flap_move su f Cancel s = (if f_done s then None else Some (s\<lparr>f_done := True\<rparr>))"

inductive flap_step :: "testSetup \<Rightarrow> FlappingConf \<Rightarrow> fsys \<Rightarrow> fsys \<Rightarrow> bool" for su f where
  move: "\<not> f_crashed s \<Longrightarrow> flap_move su f m s = Some t \<Longrightarrow> flap_step su f s t"

inductive_cases flap_stepE: "flap_step su f s t"

fun run_flap :: "testSetup \<Rightarrow> FlappingConf \<Rightarrow> fmove list \<Rightarrow> fsys \<Rightarrow> fsys option" where
  "run_flap su f [] s = Some s"
| "run_flap su f (m # ms) s =
     (if f_crashed s then None
      else case flap_move su f m s of None \<Rightarrow> None | Some t \<Rightarrow> run_flap su f ms t)"

lemma run_flap_reach: "run_flap su f ms s = Some t \<Longrightarrow> (flap_step su f)\<^sup>*\<^sup>* s t"
proof (induction ms arbitrary: s)
  case (Cons m ms)
  then obtain u where "\<not> f_crashed s" "flap_move su f m s = Some u" "run_flap su f ms u = Some t"
    by (auto split: if_splits option.splits)
  with Cons.IH show ?case by (meson converse_rtranclp_into_rtranclp flap_step.move)
qed simp

section \<open>Steps of single clients\<close>

lemma set_client_sel [simp]:
  "f_rchan (set_client i c s) = f_rchan s" "f_results (set_client i c s) = f_results s"
  "f_s4 (set_client i c s) = f_s4 s" "f_s6 (set_client i c s) = f_s6 s"
  "f_done (set_client i c s) = f_done s" "f_crashed (set_client i c s) = f_crashed s"
  "f_clients (set_client i c s) = (f_clients s)[i := c]"
  by (simp_all add: set_client_def)

abbreviation popped_client :: "nat \<Rightarrow> script \<Rightarrow> fclient \<Rightarrow> fclient" where
  "popped_client j es c \<equiv> c\<lparr>f_live := (f_live c)[j := es]\<rparr>"

lemma flap_act_move:
  assumes "flap_move su f (FAct i j) s = Some t"
  obtains a es where "i < length (f_clients s)" "j < length (f_live (f_clients s ! i))"
    "f_live (f_clients s ! i) ! j = a # es"
    "case a of Crash \<Rightarrow> t = s\<lparr>f_crashed := True\<rparr>
       | Do e \<Rightarrow> do_flap_ev e (set_client i (popped_client j es (f_clients s ! i)) s) = Some t"
  using assms by (auto split: if_splits list.splits act.splits)

lemma flap_turn_move:
  assumes "flap_move su f (Turn i W rnd) s = Some t"
  obtains "i < length (f_clients s)" "f_pc (f_clients s ! i) \<noteq> FlapEnd" "idle (f_clients s ! i)"
    "t = s\<lparr>f_crashed := True\<rparr> \<or>
     (\<exists>c. flap_turn W su rnd f (f_done s) (f_clients s ! i) = Ok c \<and> t = set_client i c s)"
  using assms by (auto split: if_splits gores.splits)

lemma do_flap_ev_clients:
  "do_flap_ev e s = Some t \<Longrightarrow> f_clients t = f_clients s \<and> f_done t = f_done s
     \<and> f_results t = f_results s"
  by (cases "(e, s)" rule: do_flap_ev.cases)
    (auto simp: send_or_def split: option.splits sendres.splits)

text \<open>What a turn leaves of the client, and what it begins.\<close>

lemma flap_turn_begins:
  assumes "flap_turn W su rnd f done c = Ok c'"
  shows "f_live c' = f_live c
    \<or> (\<exists>dc. f_live c' = [script_of (releasev4 W False dc)] \<and> d4Lease dc \<noteq> None)
    \<or> (\<exists>dc. f_live c' = [script_of (releaseOrRenewV6 W False MTRelease dc)] \<and> d6Lease dc \<noteq> None)
    \<or> f_live c' = [] \<or> (\<exists>dc. f_live c' = cr_scripts (dialAll W su dc))"
  using assms
  by (cases "f_pc c") (auto simp: flap_turn_def gbind_eq_Ok split: if_splits)

lemma flap_turn_other:
  "flap_turn W su rnd f done c = Ok c' \<Longrightarrow> d4OtherClnt (f_dc c') = d4OtherClnt (f_dc c)"
  by (cases "f_pc c") (auto simp: flap_turn_def gbind_eq_Ok redialed_def split: if_splits)

definition fload :: "(act \<Rightarrow> nat) \<Rightarrow> fsys \<Rightarrow> nat" where
  "fload w s = sum_list (map (\<lambda>c. scripts_load w (f_live c)) (f_clients s))"

lemma fload_set:
  "i < length (f_clients s) \<Longrightarrow>
   fload w (set_client i c s) + scripts_load w (f_live (f_clients s ! i))
     = fload w s + scripts_load w (f_live c)"
  using sum_list_update_add [of i "f_clients s" "\<lambda>c. scripts_load w (f_live c)" c]
  by (simp add: fload_def)

lemma fload_pop:
  assumes "i < length (f_clients s)" "j < length (f_live (f_clients s ! i))"
    and "f_live (f_clients s ! i) ! j = a # es"
  shows "fload w (set_client i (popped_client j es (f_clients s ! i)) s) + w a = fload w s"
  using fload_set [OF assms(1), of w "popped_client j es (f_clients s ! i)"]
    scripts_load_update [OF assms(2), of w es] assms(3)
  by simp

lemma fload_cong: "f_clients s = f_clients t \<Longrightarrow> fload w s = fload w t"
  by (simp add: fload_def)

lemma idle_load: "idle c \<Longrightarrow> scripts_load w (f_live c) = (0::nat)"
  by (simp add: idle_def empty_scripts_load)

end
