(* ===== verification/FlapRun.thy ===== *)
theory FlapRun
  imports Flap
begin

text \<open>
  What flapping does over whole runs: the leases that nobody receives any more, the end after the
  context is done, the clients that get their first lease while flapping.
\<close>

section \<open>Leases that nobody receives\<close>

text \<open>Weights of an effect: a successful DHCPv4 dial reported, a DHCPv4 lease sent.\<close>

definition dialed4 :: "dialResult \<Rightarrow> bool" where
  "dialed4 r \<longleftrightarrow> \<not> IsDHCPv6 r \<and> action r = actionDORA \<and> ExecResult r = resultSuccess"

fun succ_w :: "act \<Rightarrow> nat" where
  "succ_w (Do (EvResult r)) = (if dialed4 r then 1 else 0)"
| "succ_w _ = 0"

fun sent_w :: "act \<Rightarrow> nat" where
  "sent_w (Do (EvSave (Saved4 k l))) = 1"
| "sent_w _ = 0"

text \<open>
  A transaction sends its lease before it reports: no tail of it has more to send than successes
  to report, and on the whole there are as many.
\<close>

definition owing :: "script \<Rightarrow> bool" where
  "owing sc \<longleftrightarrow> (\<forall>k. script_load sent_w (drop k sc) \<le> script_load succ_w (drop k sc))"

lemma owing_tail: "owing (a # es) \<Longrightarrow> owing es"
  unfolding owing_def by (metis drop_Suc_Cons)

lemma owing_head: "owing sc \<Longrightarrow> script_load sent_w sc \<le> script_load succ_w sc"
  unfolding owing_def by (metis drop0)

lemma script_load_append [simp]:
  "script_load w (xs @ ys) = script_load w xs + script_load w ys"
  by (simp add: script_load_def)

lemma script_load_drop: "script_load w (drop k sc) \<le> (script_load w sc :: nat)"
proof -
  have "script_load w sc = script_load w (take k sc) + script_load w (drop k sc)"
    by (metis append_take_drop_id script_load_append)
  then show ?thesis by simp
qed

lemma owing_split:
  assumes "script_load sent_w ys = 0" and "script_load sent_w xs \<le> script_load succ_w ys"
  shows "owing (xs @ ys)"
  unfolding owing_def
proof
  fix k
  have "script_load sent_w (drop k ys') = 0" if "script_load sent_w ys' = 0" for ys' k
    using script_load_drop [of sent_w k ys'] that by simp
  moreover have "script_load sent_w (drop k xs) \<le> script_load sent_w xs" by (rule script_load_drop)
  ultimately show "script_load sent_w (drop k (xs @ ys)) \<le> script_load succ_w (drop k (xs @ ys))"
    using assms by (cases "k \<le> length xs") simp_all
qed

lemma owing_quiet: "script_load sent_w sc = 0 \<Longrightarrow> owing sc"
  using owing_split [of sc "[]"] by simp

lemma sent_load: "script_load sent_w (map Do evs) = length (filter (\<lambda>x. case x of Saved4 _ _ \<Rightarrow> True | _ \<Rightarrow> False) (saves evs))"
  by (induction evs rule: saves.induct) (auto split: saved.split)

lemma succ_load: "script_load succ_w (map Do evs) = length (filter dialed4 (results evs))"
  by (induction evs rule: results.induct) auto

definition crash_of :: "('e, 'a) gores \<Rightarrow> script" where
  "crash_of r = (if r = Panic then [Crash] else [])"

lemma script_of_eq: "script_of p = map Do (fst (snd p)) @ crash_of (snd (snd p))"
  by (simp add: script_of_def crash_of_def split: prod.split)

lemma crash_load [simp]: "script_load succ_w (crash_of r) = 0" "script_load sent_w (crash_of r) = 0"
  by (simp_all add: crash_of_def)

lemma quiet_script:
  assumes "\<forall>l \<in> set (saves (fst (snd p))). case l of Saved4 _ _ \<Rightarrow> False | Saved6 _ _ \<Rightarrow> True"
    and "\<forall>r \<in> set (results (fst (snd p))). \<not> dialed4 r"
  shows "script_load sent_w (script_of p) = 0" "script_load succ_w (script_of p) = 0"
proof -
  have "filter (\<lambda>x. case x of Saved4 _ _ \<Rightarrow> True | _ \<Rightarrow> False) (saves (fst (snd p))) = []"
    using assms(1) by (auto simp: filter_empty_conv split: saved.splits)
  then show "script_load sent_w (script_of p) = 0" by (simp add: script_of_eq sent_load)
  have "filter dialed4 (results (fst (snd p))) = []"
    using assms(2) by (simp add: filter_empty_conv)
  then show "script_load succ_w (script_of p) = 0" by (simp add: script_of_eq succ_load)
qed

lemma report_results [simp]:
  "results (report v6 a ex i t u wg)
     = [\<lparr>IsDHCPv6 = v6, action = a, ExecResult = ex, L2EP = i, StartTime = t, FinishTime = u\<rparr>]"
  "results (done_evs wg) = []"
  by (simp_all add: report_def done_evs_def)

lemma release4_results: "\<forall>r \<in> set (results (fst (snd (releasev4 W wg dc)))). action r = actionRelease"
  by (auto simp: releasev4_def plain_results split: option.split prod.split)

lemma release6_results:
  "\<forall>r \<in> set (results (fst (snd (releaseOrRenewV6 W wg mt dc)))). action r = actionRelease"
proof (cases "d6Lease dc")
  case (Some l)
  from releaseOrRenewV6_shape [OF this, of W wg mt] show ?thesis by (auto simp: plain_results)
qed (simp add: releaseOrRenewV6_def)

lemma release_quiet:
  "script_load sent_w (script_of (releasev4 W wg dc)) = 0"
  "script_load succ_w (script_of (releasev4 W wg dc)) = 0"
  "script_load sent_w (script_of (releaseOrRenewV6 W wg mt dc)) = 0"
  "script_load succ_w (script_of (releaseOrRenewV6 W wg mt dc)) = 0"
  by (rule quiet_script; use release4_results [of W wg dc] release6_results [of W wg mt dc] in
      \<open>simp add: release_saves dialed4_def\<close>)+

lemma dialv6_results: "\<forall>r \<in> set (results (fst (snd (dialv6 W su dc)))). IsDHCPv6 r"
proof (cases "d6 dc")
  case (Some c)
  then have "d6 dc \<noteq> None" by simp
  from dora6.one_result [OF this, of W su] show ?thesis by auto
qed (simp add: dialv6_def)

lemma dialv6_quiet:
  "script_load sent_w (script_of (dialv6 W su dc)) = 0"
  "script_load succ_w (script_of (dialv6 W su dc)) = 0"
  by (rule quiet_script; use dialv6_results [of W su dc] dialv6_allowed [of False su W dc] in
      \<open>auto simp: saves_allowed_def dialed4_def split: saved.splits\<close>)+

lemma lift_err_quiet: "fst (lift_err h r) = []"
  by (cases r) simp_all

lemma send_lease_saves:
  assumes "send_lease W ch ec (\<lambda>i. Saved4 i l) = (evs, r)" and "ch \<noteq> None"
  shows "script_load sent_w (map Do evs) = (if r = Ok () then 1 else 0)"
proof -
  obtain e k where k: "key_id W ec = (e, k)" by (metis prod.exhaust)
  have "e = []"
    using k by (cases ec; cases "snd (key_id W ec)")
      (auto simp: key_id_def lift_err_quiet dest: arg_cong [of _ _ fst])
  with assms k show ?thesis by (cases k) (auto simp: send_lease_def split: option.splits)
qed

lemma dialv4_body_saves:
  assumes "dialv4_body W su dc c = (dc', evs, r)" and "saveV4Chan su \<noteq> None"
  shows "script_load sent_w (map Do evs) = (if r = Ok () then 1 else 0)"
proof (cases "Request4 W c (dora_mods su (cfg dc))")
  case (Some lease)
  define l where "l = newV4Lease\<lparr>Lease4 := Some lease, VLANList := VLANs (cfg dc)\<rparr>"
  define ap where "ap = (if ApplyLease su
      then apply_ops (v4_Apply (w_v4 W) (w_netlink W) l (Ifname su) True) else ([], Ok ()))"
  have q: "script_load sent_w (map Do (fst ap)) = 0"
    unfolding ap_def by (auto simp: sent_load apply_ops_def lift_err_quiet split: prod.splits)
  obtain e1 r1 e2 r2 where e: "ap = (e1, r1)"
    "send_lease W (saveV4Chan su) (v4econn (cfg dc)) (\<lambda>i. Saved4 i l) = (e2, r2)"
    by (metis prod.exhaust)
  have "evs = EvRequest4 # fst (abind ap (\<lambda>_. (e2, r2)))" "r = snd (abind ap (\<lambda>_. (e2, r2)))"
    using assms(1) Some by (simp_all add: dialv4_body_def Let_def ap_def l_def [symmetric] e(2))
  then show ?thesis
    using send_lease_saves [OF e(2) assms(2)] q by (cases r1) (simp_all add: e(1))
qed (use assms in \<open>auto simp: dialv4_body_def\<close>)

lemma dialv4_owing:
  assumes "d4 dc \<noteq> None" and "saveV4Chan su \<noteq> None"
  shows "owing (script_of (dialv4 W su dc))
    \<and> script_load sent_w (script_of (dialv4 W su dc)) = script_load succ_w (script_of (dialv4 W su dc))"
proof -
  from assms(1) obtain c where c: "d4 dc = Some c" by auto
  obtain dc' evs r where b: "dialv4_body W su dc c = (dc', evs, r)" by (metis prod.exhaust)
  define pre where "pre = map Do ([EvNow (w_now W 0), EvNow (w_now W 1)] @ evs)"
  define post where "post = map Do (report False actionDORA (exec_of r) (dc_id dc) (w_now W 1) (w_now W 2) True)
    @ crash_of r"
  have s: "script_of (dialv4 W su dc) = pre @ post"
    by (simp add: script_of_eq dialv4_def c b pre_def post_def)
  have p: "script_load succ_w pre = 0"
    using dialv4_body_plain [of W su dc c] by (simp add: succ_load b plain_results pre_def)
  have q: "script_load sent_w post = 0" "script_load succ_w post = (if r = Ok () then 1 else 0)"
    by (cases r; simp add: post_def report_def done_evs_def dialed4_def)+
  have r: "script_load sent_w pre = (if r = Ok () then 1 else 0)"
    using dialv4_body_saves [OF b assms(2)] by (simp add: pre_def)
  show ?thesis
    unfolding s script_load_append by (simp add: owing_split p q r)
qed

lemma dialAll_owing:
  assumes "saveV4Chan su \<noteq> None"
  shows "(\<forall>sc \<in> set (cr_scripts (dialAll W su dc)). owing sc)
    \<and> scripts_load sent_w (cr_scripts (dialAll W su dc)) = scripts_load succ_w (cr_scripts (dialAll W su dc))"
  using dialv4_owing [OF _ assms, of dc W] dialv6_quiet [of W su dc] owing_quiet [OF dialv6_quiet(1), of W su dc]
  by (simp add: dialAll_def ordered_def)

lemma flap_turn_owing:
  assumes "flap_turn W su rnd f done c = Ok c'" and "idle c" and "saveV4Chan su \<noteq> None"
  shows "(\<forall>sc \<in> set (f_live c'). owing sc)
    \<and> scripts_load sent_w (f_live c') = scripts_load succ_w (f_live c')"
proof -
  have "owing []" by (simp add: owing_quiet)
  then have i: "\<forall>sc \<in> set (f_live c). owing sc" using assms(2) by (auto simp: idle_def)
  from flap_turn_begins [OF assms(1)] show ?thesis
    using i idle_load [OF assms(2)] dialAll_owing [OF assms(3)]
    by (elim disjE exE) (auto simp: release_quiet intro: owing_quiet)
qed

definition successes :: "fsys \<Rightarrow> nat" where
  "successes s = length (filter dialed4 (f_results s)) + length (filter dialed4 (cbuf (f_rchan s)))"

definition saves_inv :: "nat \<Rightarrow> fsys \<Rightarrow> bool" where
  "saves_inv base s \<longleftrightarrow>
     (\<exists>c. f_s4 s = Some c \<and> \<not> cclosed c \<and> ccap c = saveChanDepth \<and> length (cbuf c) \<le> saveChanDepth
        \<and> successes s + base + fload succ_w s = length (cbuf c) + fload sent_w s)
     \<and> \<not> cclosed (f_rchan s)
     \<and> (\<forall>cl \<in> set (f_clients s). \<forall>sc \<in> set (f_live cl). owing sc)"

lemma open_send: "\<not> cclosed c \<Longrightarrow> chan_send c x \<noteq> SendPanics"
  by (simp add: chan_send_def)

lemma chan_send_Sent_iff:
  "chan_send c x = Sent c' \<longleftrightarrow> \<not> cclosed c \<and> length (cbuf c) < ccap c \<and> c' = c\<lparr>cbuf := cbuf c @ [x]\<rparr>"
  by (auto simp: chan_send_def)

lemma saves_inv_turn:
  assumes "saves_inv base s" and "i < length (f_clients s)" and "idle (f_clients s ! i)"
    and "flap_turn W su rnd f b (f_clients s ! i) = Ok c" and "saveV4Chan su \<noteq> None"
  shows "saves_inv base (set_client i c s)"
proof -
  note o = flap_turn_owing [OF assms(4,3,5)]
  have l: "fload w (set_client i c s) = fload w s + scripts_load w (f_live c)" for w
    using fload_set [OF assms(2), of w c] idle_load [OF assms(3), of w] by simp
  from assms(1) obtain q where q: "f_s4 s = Some q" "\<not> cclosed q" "ccap q = saveChanDepth"
    "length (cbuf q) \<le> saveChanDepth"
    "successes s + base + fload succ_w s = length (cbuf q) + fload sent_w s"
    by (auto simp: saves_inv_def)
  have "successes (set_client i c s) = successes s" by (simp add: successes_def)
  with q o l have "successes (set_client i c s) + base + fload succ_w (set_client i c s)
      = length (cbuf q) + fload sent_w (set_client i c s)" by simp
  moreover have "\<forall>cl \<in> set ((f_clients s)[i := c]). \<forall>sc \<in> set (f_live cl). owing sc"
    using assms(1) o set_update_subset_insert [of "f_clients s" i c] by (auto simp: saves_inv_def)
  ultimately show ?thesis using q assms(1) by (simp add: saves_inv_def)
qed

lemma saves_inv_act:
  assumes "saves_inv base s" and "i < length (f_clients s)" and "j < length (f_live (f_clients s ! i))"
    and "f_live (f_clients s ! i) ! j = Do e # es"
    and "do_flap_ev e (set_client i (popped_client j es (f_clients s ! i)) s) = Some t"
  shows "saves_inv base t"
proof -
  let ?c = "popped_client j es (f_clients s ! i)"
  let ?u = "set_client i ?c s"
  note l = fload_pop [OF assms(2-4)]
  from assms(1) obtain q where q: "f_s4 s = Some q" "\<not> cclosed q" "ccap q = saveChanDepth"
    "length (cbuf q) \<le> saveChanDepth"
    "successes s + base + fload succ_w s = length (cbuf q) + fload sent_w s" "\<not> cclosed (f_rchan s)"
    by (auto simp: saves_inv_def)
  have m: "f_clients s ! i \<in> set (f_clients s)" "Do e # es \<in> set (f_live (f_clients s ! i))"
    using assms(2-4) by (simp, metis nth_mem)
  then have "owing (Do e # es)" using assms(1) by (auto simp: saves_inv_def)
  then have "\<forall>sc \<in> set (f_live ?c). owing sc"
    using assms(1) m set_update_subset_insert [of "f_live (f_clients s ! i)" j es]
    by (fastforce simp: saves_inv_def dest: owing_tail)
  then have o: "\<forall>cl \<in> set (f_clients ?u). \<forall>sc \<in> set (f_live cl). owing sc"
    using assms(1) set_update_subset_insert [of "f_clients s" i ?c]
    by (fastforce simp: saves_inv_def)
  have c: "f_clients t = f_clients ?u" using do_flap_ev_clients [OF assms(5)] by simp
  have lt: "fload succ_w t + succ_w (Do e) = fload succ_w s" "fload sent_w t + sent_w (Do e) = fload sent_w s"
    using l fload_cong [OF c] by simp_all
  from assms(5) have "\<exists>p. f_s4 t = Some p \<and> \<not> cclosed p \<and> ccap p = saveChanDepth
      \<and> length (cbuf p) \<le> saveChanDepth \<and> successes t + length (cbuf q) + sent_w (Do e)
        = successes s + succ_w (Do e) + length (cbuf p) \<and> \<not> cclosed (f_rchan t)"
    using q
    by (cases "(e, ?u)" rule: do_flap_ev.cases)
      (auto simp: send_or_def successes_def open_send chan_send_Sent_iff split: option.splits sendres.splits)
  then show ?thesis using q(5) lt o c by (auto simp: saves_inv_def)
qed

lemma saves_inv_frame:
  assumes "saves_inv base s" and "f_clients t = f_clients s" "f_s4 t = f_s4 s"
    "successes t = successes s" "cclosed (f_rchan t) = cclosed (f_rchan s)"
  shows "saves_inv base t"
  using assms by (simp add: saves_inv_def fload_def)

lemma saves_inv_step:
  assumes "flap_step su f s t" and "saves_inv base s" and "saveV4Chan su \<noteq> None"
  shows "saves_inv base t"
proof -
  from assms(1) obtain m where m: "flap_move su f m s = Some t" by (auto elim: flap_stepE)
  have crash: "saves_inv base (s\<lparr>f_crashed := True\<rparr>)" and stop: "saves_inv base (s\<lparr>f_done := True\<rparr>)"
    by (rule saves_inv_frame [OF assms(2)]; simp add: successes_def)+
  show ?thesis
  proof (cases m)
    case (Turn i W rnd)
    from m [unfolded Turn] show ?thesis
    proof (rule flap_turn_move)
      assume i: "i < length (f_clients s)" "idle (f_clients s ! i)"
        and "t = s\<lparr>f_crashed := True\<rparr> \<or>
          (\<exists>c. flap_turn W su rnd f (f_done s) (f_clients s ! i) = Ok c \<and> t = set_client i c s)"
      then show ?thesis using crash saves_inv_turn [OF assms(2) i _ assms(3)] by blast
    qed
  next
    case (FAct i j)
    from m [unfolded FAct] obtain a es where a: "i < length (f_clients s)"
      "j < length (f_live (f_clients s ! i))" "f_live (f_clients s ! i) ! j = a # es"
      "case a of Crash \<Rightarrow> t = s\<lparr>f_crashed := True\<rparr>
       | Do e \<Rightarrow> do_flap_ev e (set_client i (popped_client j es (f_clients s ! i)) s) = Some t"
      by (rule flap_act_move)
    show ?thesis
    proof (cases a)
      case (Do e)
      with a(3,4) saves_inv_act [OF assms(2) a(1,2)] show ?thesis by simp
    qed (use a(4) crash in simp)
  next
    case FCollect
    with m obtain r c where r: "chan_recv (f_rchan s) = Recv r c"
      "t = s\<lparr>f_rchan := c, f_results := f_results s @ [r]\<rparr>"
      by (auto split: recvres.splits)
    from chan_recv_RecvD [OF r(1)] show ?thesis
      by (intro saves_inv_frame [OF assms(2)]) (simp_all add: successes_def r(2))
  next
    case Cancel
    with m stop show ?thesis by (simp split: if_splits)
  qed
qed

definition flap_begins :: "testSetup \<Rightarrow> saved gochan \<Rightarrow> fsys \<Rightarrow> bool" where
  "flap_begins su c s \<longleftrightarrow>
     saveV4Chan su = Some saveChanDepth \<and> ccap c = saveChanDepth \<and> \<not> cclosed c \<and> chan_ok c
     \<and> (\<exists>c6 dcs. s = flap_start su (Some c) c6 dcs)"

lemma fload_start: "fload w (flap_start su c4 c6 dcs) = 0"
  by (simp add: fload_def flap_start_def comp_def)

interpretation flap_saves: step_invariant "\<lambda>s. flap_begins su c s"
    "\<lambda>s t. saveV4Chan su \<noteq> None \<and> flap_step su f s t" "saves_inv (length (cbuf c))"
  for su c f
proof
  fix s t
  show "flap_begins su c s \<Longrightarrow> saves_inv (length (cbuf c)) s"
    by (auto simp: flap_begins_def saves_inv_def fload_start chan_ok_def)
      (auto simp: flap_start_def successes_def)
  show "saveV4Chan su \<noteq> None \<and> flap_step su f s t \<Longrightarrow> saves_inv (length (cbuf c)) s
      \<Longrightarrow> saves_inv (length (cbuf c)) t"
    by (blast intro: saves_inv_step)
qed

lemma saves_inv_bound:
  assumes "saves_inv base s"
  shows "successes s + base \<le> saveChanDepth"
proof -
  have "script_load sent_w sc \<le> script_load succ_w sc" if "owing sc" for sc by (rule owing_head [OF that])
  then have "scripts_load sent_w scs \<le> scripts_load succ_w scs" if "\<forall>sc \<in> set scs. owing sc" for scs
    using that by (simp add: scripts_load_def sum_list_mono)
  then have "fload sent_w s \<le> fload succ_w s"
    using assms unfolding fload_def saves_inv_def by (intro sum_list_mono) blast
  with assms show ?thesis by (auto simp: saves_inv_def)
qed

text \<open>A client that is blocked sending a lease.\<close>

definition stuck :: "nat \<Rightarrow> nat \<Rightarrow> script \<Rightarrow> flap_pc \<Rightarrow> saved gochan \<Rightarrow> fsys \<Rightarrow> bool" where
  "stuck i j sc p c s \<longleftrightarrow>
     i < length (f_clients s) \<and> f_pc (f_clients s ! i) = p \<and> j < length (f_live (f_clients s ! i))
     \<and> f_live (f_clients s ! i) ! j = sc \<and> f_s4 s = Some c
     \<and> (\<exists>k l es. sc = Do (EvSave (Saved4 k l)) # es) \<and> \<not> cclosed c \<and> ccap c \<le> length (cbuf c)"

lemma do_flap_ev_full:
  assumes "do_flap_ev e s = Some t" and "f_s4 s = Some c" "\<not> cclosed c" "ccap c \<le> length (cbuf c)"
  shows "f_s4 t = Some c \<and> \<not> (\<exists>k l. e = EvSave (Saved4 k l))"
  using assms
  by (cases "(e, s)" rule: do_flap_ev.cases)
    (auto simp: send_or_def chan_send_def split: option.splits sendres.splits if_splits)

interpretation flap_stuck: step_invariant "stuck i j sc p c" "flap_step su f" "stuck i j sc p c"
  for i j sc p c su f
proof
  fix s t
  show "stuck i j sc p c s \<Longrightarrow> stuck i j sc p c s" .
  assume "flap_step su f s t" and st: "stuck i j sc p c s"
  then obtain m where m: "flap_move su f m s = Some t" by (auto elim: flap_stepE)
  show "stuck i j sc p c t"
  proof (cases m)
    case (Turn i' W rnd)
    from m [unfolded Turn] show ?thesis
    proof (rule flap_turn_move)
      assume a: "i' < length (f_clients s)" "idle (f_clients s ! i')"
        "t = s\<lparr>f_crashed := True\<rparr> \<or>
          (\<exists>c. flap_turn W su rnd f (f_done s) (f_clients s ! i') = Ok c \<and> t = set_client i' c s)"
      have "i' \<noteq> i"
        using st a(2) nth_mem [of j "f_live (f_clients s ! i)"] by (auto simp: stuck_def idle_def)
      with a(3) st show ?thesis by (auto simp: stuck_def)
    qed
  next
    case (FAct i' j')
    from m [unfolded FAct] obtain a es where a: "i' < length (f_clients s)"
      "j' < length (f_live (f_clients s ! i'))" "f_live (f_clients s ! i') ! j' = a # es"
      "case a of Crash \<Rightarrow> t = s\<lparr>f_crashed := True\<rparr>
       | Do e \<Rightarrow> do_flap_ev e (set_client i' (popped_client j' es (f_clients s ! i')) s) = Some t"
      by (rule flap_act_move)
    show ?thesis
    proof (cases a)
      case (Do e)
      with a(4) have e: "do_flap_ev e (set_client i' (popped_client j' es (f_clients s ! i')) s) = Some t"
        by simp
      have f: "f_s4 t = Some c" "\<not> (\<exists>k l. e = EvSave (Saved4 k l))"
        using do_flap_ev_full [OF e] st by (auto simp: stuck_def)
      have "\<not> (i' = i \<and> j' = j)" using f(2) a(3) st by (auto simp: stuck_def Do)
      with do_flap_ev_clients [OF e] st f(1) a(1) show ?thesis
        by (auto simp: stuck_def nth_list_update)
    qed (use a(4) st in \<open>simp add: stuck_def\<close>)
  next
    case FCollect
    with m st show ?thesis by (auto simp: stuck_def split: recvres.splits)
  next
    case Cancel
    with m st show ?thesis by (auto simp: stuck_def split: if_splits)
  qed
qed

section \<open>After the context is done\<close>

definition client_rank :: "fclient \<Rightarrow> nat" where
  "client_rank c = scripts_load (\<lambda>_. 2) (f_live c) + (if f_pc c = FlapEnd then 0 else 1)"

definition flap_rank :: "fsys \<Rightarrow> nat" where
  "flap_rank s = sum_list (map client_rank (f_clients s)) + length (cbuf (f_rchan s))
     + (if f_crashed s then 0 else 1)"

lemma client_rank_set:
  "i < length (f_clients s) \<Longrightarrow>
   sum_list (map client_rank ((f_clients s)[i := c])) + client_rank (f_clients s ! i)
     = sum_list (map client_rank (f_clients s)) + client_rank c"
  by (rule sum_list_update_add)

lemma client_rank_pop:
  assumes "j < length (f_live c)" "f_live c ! j = a # es"
  shows "client_rank (popped_client j es c) + 2 = client_rank c"
  using scripts_load_update [OF assms(1), of "\<lambda>_. 2 :: nat" es] assms(2) by (simp add: client_rank_def)

lemma do_flap_ev_rank:
  assumes "do_flap_ev e s = Some t"
  shows "length (cbuf (f_rchan t)) \<le> length (cbuf (f_rchan s)) + 1"
    "(if f_crashed t then 0 else 1) \<le> (if f_crashed s then 0 else (1::nat))"
  using assms
  by (cases "(e, s)" rule: do_flap_ev.cases;
      auto simp: send_or_def chan_send_Sent_iff split: option.splits sendres.splits)+

lemma flap_rank_step:
  assumes "flap_step su f s t" and "f_done s"
  shows "f_done t \<and> flap_rank t < flap_rank s"
proof -
  from assms(1) obtain m where m: "flap_move su f m s = Some t" and n: "\<not> f_crashed s"
    by (auto elim: flap_stepE)
  have crash: "f_done (s\<lparr>f_crashed := True\<rparr>) \<and> flap_rank (s\<lparr>f_crashed := True\<rparr>) < flap_rank s"
    using n assms(2) by (simp add: flap_rank_def)
  show ?thesis
  proof (cases m)
    case (Turn i W rnd)
    from m [unfolded Turn] show ?thesis
    proof (rule flap_turn_move)
      assume i: "i < length (f_clients s)" "f_pc (f_clients s ! i) \<noteq> FlapEnd"
        and "t = s\<lparr>f_crashed := True\<rparr> \<or>
          (\<exists>c. flap_turn W su rnd f (f_done s) (f_clients s ! i) = Ok c \<and> t = set_client i c s)"
      then show ?thesis
      proof (elim disjE exE conjE)
        fix c assume c: "flap_turn W su rnd f (f_done s) (f_clients s ! i) = Ok c" "t = set_client i c s"
        then have "c = (f_clients s ! i)\<lparr>f_pc := FlapEnd\<rparr>" using assms(2) by (simp add: flap_turn_def)
        then have "client_rank c < client_rank (f_clients s ! i)" using i(2) by (simp add: client_rank_def)
        with client_rank_set [OF i(1), of c] assms(2) show ?thesis by (simp add: c(2) flap_rank_def)
      qed (use crash in simp)
    qed
  next
    case (FAct i j)
    from m [unfolded FAct] obtain a es where a: "i < length (f_clients s)"
      "j < length (f_live (f_clients s ! i))" "f_live (f_clients s ! i) ! j = a # es"
      "case a of Crash \<Rightarrow> t = s\<lparr>f_crashed := True\<rparr>
       | Do e \<Rightarrow> do_flap_ev e (set_client i (popped_client j es (f_clients s ! i)) s) = Some t"
      by (rule flap_act_move)
    show ?thesis
    proof (cases a)
      case (Do e)
      with a(4) have e: "do_flap_ev e (set_client i (popped_client j es (f_clients s ! i)) s) = Some t"
        by simp
      show ?thesis
        using do_flap_ev_clients [OF e] do_flap_ev_rank [OF e] assms(2)
          client_rank_set [OF a(1), of "popped_client j es (f_clients s ! i)"] client_rank_pop [OF a(2,3)]
        by (simp add: flap_rank_def)
    qed (use a(4) crash in simp)
  next
    case FCollect
    with m obtain r c where r: "chan_recv (f_rchan s) = Recv r c"
      "t = s\<lparr>f_rchan := c, f_results := f_results s @ [r]\<rparr>"
      by (auto split: recvres.splits)
    from chan_recv_RecvD(1) [OF r(1)] assms(2) show ?thesis
      by (simp add: flap_rank_def r(2))
  next
    case Cancel
    with m assms(2) show ?thesis by simp
  qed
qed

interpretation flap_stop: terminating_steps f_done "flap_step su f" f_done flap_rank for su f
  by unfold_locales (blast dest: flap_rank_step)+

text \<open>Without saved leases no transaction sends one, so that none can block on it.\<close>

fun no_save :: "act \<Rightarrow> bool" where
  "no_save (Do (EvSave l)) = False"
| "no_save _ = True"

definition saveless :: "fsys \<Rightarrow> bool" where
  "saveless s \<longleftrightarrow>
     (\<forall>c \<in> set (f_clients s). \<forall>sc \<in> set (f_live c). list_all no_save sc)
     \<and> \<not> cclosed (f_rchan s) \<and> 0 < ccap (f_rchan s)"

lemma no_save_script: "saves (fst (snd p)) = [] \<Longrightarrow> list_all no_save (script_of p)"
proof -
  have "list_all no_save (map Do evs)" if "saves evs = []" for evs
    using that by (induction evs rule: saves.induct) auto
  then show "saves (fst (snd p)) = [] \<Longrightarrow> list_all no_save (script_of p)"
    by (simp add: script_of_eq crash_of_def)
qed

lemma dialAll_no_save:
  assumes "saveV4Chan su = None" "saveV6Chan su = None"
  shows "\<forall>sc \<in> set (cr_scripts (dialAll W su dc)). list_all no_save sc"
proof -
  have "saves_allowed False False (fst (snd (dialv4 W su dc)))"
    "saves_allowed False False (fst (snd (dialv6 W su dc)))"
    using dialv4_allowed [of su False W dc] dialv6_allowed [of False su W dc] assms by simp_all
  then have "saves (fst (snd (dialv4 W su dc))) = []" "saves (fst (snd (dialv6 W su dc))) = []"
    unfolding saves_allowed_def
    by (metis (no_types, lifting) list.set_intros(1) neq_Nil_conv saved.case saved.exhaust)+
  then show ?thesis by (auto simp: dialAll_def ordered_def intro: no_save_script)
qed

lemma do_flap_ev_rchan:
  assumes "do_flap_ev e s = Some t"
  shows "cclosed (f_rchan t) = cclosed (f_rchan s) \<and> ccap (f_rchan t) = ccap (f_rchan s)"
  using assms
  by (cases "(e, s)" rule: do_flap_ev.cases)
    (auto simp: send_or_def chan_send_Sent_iff split: option.splits sendres.splits)

lemma saveless_clients:
  assumes "saveless s" and "\<forall>sc \<in> set (f_live c). list_all no_save sc"
    and "f_clients t = (f_clients s)[i := c]" "cclosed (f_rchan t) = cclosed (f_rchan s)"
    "ccap (f_rchan t) = ccap (f_rchan s)"
  shows "saveless t"
  using assms set_update_subset_insert [of "f_clients s" i c] by (fastforce simp: saveless_def)

lemma saveless_step:
  assumes "flap_step su f s t" and "saveless s" and "saveV4Chan su = None" "saveV6Chan su = None"
  shows "saveless t"
proof -
  from assms(1) obtain m where m: "flap_move su f m s = Some t" by (auto elim: flap_stepE)
  show ?thesis
  proof (cases m)
    case (Turn i W rnd)
    from m [unfolded Turn] show ?thesis
    proof (rule flap_turn_move)
      assume i: "i < length (f_clients s)" and "t = s\<lparr>f_crashed := True\<rparr> \<or>
          (\<exists>c. flap_turn W su rnd f (f_done s) (f_clients s ! i) = Ok c \<and> t = set_client i c s)"
      then show ?thesis
      proof (elim disjE exE conjE)
        fix c assume c: "flap_turn W su rnd f (f_done s) (f_clients s ! i) = Ok c" "t = set_client i c s"
        have "\<forall>sc \<in> set (f_live (f_clients s ! i)). list_all no_save sc"
          using assms(2) nth_mem [OF i] by (auto simp: saveless_def)
        with flap_turn_begins [OF c(1)] dialAll_no_save [OF assms(3,4)]
        have "\<forall>sc \<in> set (f_live c). list_all no_save sc"
          by (elim disjE exE conjE) (simp_all add: no_save_script release_saves)
        then show ?thesis by (rule saveless_clients [OF assms(2)]) (simp_all add: c(2))
      qed (use assms(2) in \<open>simp add: saveless_def\<close>)
    qed
  next
    case (FAct i j)
    from m [unfolded FAct] obtain a es where a: "i < length (f_clients s)"
      "j < length (f_live (f_clients s ! i))" "f_live (f_clients s ! i) ! j = a # es"
      "case a of Crash \<Rightarrow> t = s\<lparr>f_crashed := True\<rparr>
       | Do e \<Rightarrow> do_flap_ev e (set_client i (popped_client j es (f_clients s ! i)) s) = Some t"
      by (rule flap_act_move)
    show ?thesis
    proof (cases a)
      case (Do e)
      with a(4) have e: "do_flap_ev e (set_client i (popped_client j es (f_clients s ! i)) s) = Some t"
        by simp
      have l: "\<forall>sc \<in> set (f_live (f_clients s ! i)). list_all no_save sc"
        using assms(2) nth_mem [OF a(1)] by (auto simp: saveless_def)
      moreover have "a # es \<in> set (f_live (f_clients s ! i))" using a(2,3) by (metis nth_mem)
      ultimately have "list_all no_save es" by fastforce
      with l have "\<forall>sc \<in> set (f_live (popped_client j es (f_clients s ! i))). list_all no_save sc"
        using set_update_subset_insert [of "f_live (f_clients s ! i)" j es] by auto
      then show ?thesis
        by (rule saveless_clients [OF assms(2)])
          (use do_flap_ev_clients [OF e] do_flap_ev_rchan [OF e] in simp_all)
    qed (use a(4) assms(2) in \<open>simp add: saveless_def\<close>)
  next
    case FCollect
    with m assms(2) show ?thesis
      by (auto simp: saveless_def split: recvres.splits dest: chan_recv_RecvD)
  next
    case Cancel
    with m assms(2) show ?thesis by (auto simp: saveless_def split: if_splits)
  qed
qed

interpretation flap_saveless: step_invariant "\<lambda>s. \<exists>c4 c6 dcs. s = flap_start su c4 c6 dcs"
    "\<lambda>s t. saveV4Chan su = None \<and> saveV6Chan su = None \<and> flap_step su f s t" saveless
  for su f
proof
  fix s t
  show "\<exists>c4 c6 dcs. s = flap_start su c4 c6 dcs \<Longrightarrow> saveless s"
    by (auto simp: saveless_def flap_start_def dialResultChanLen_def)
qed (blast intro: saveless_step)

lemma flap_progress:
  assumes "saveless s" and "f_done s" "\<not> f_crashed s"
    and "c \<in> set (f_clients s)" and "f_pc c \<noteq> FlapEnd \<or> \<not> idle c"
  shows "\<exists>t. flap_step su f s t"
proof -
  from assms(4) obtain i where i: "i < length (f_clients s)" "f_clients s ! i = c"
    by (metis in_set_conv_nth)
  show ?thesis
  proof (cases "idle c")
    case True
    with assms i have "flap_move su f (Turn i (undefined) (\<lambda>_. 0)) s
        = Some (set_client i (c\<lparr>f_pc := FlapEnd\<rparr>) s)"
      by (simp add: flap_turn_def)
    then show ?thesis using assms(3) flap_step.move by blast
  next
    case False
    then obtain sc where "sc \<in> set (f_live c)" "sc \<noteq> []" by (auto simp: idle_def)
    then obtain j a es where j: "j < length (f_live c)" "f_live c ! j = a # es"
      by (metis in_set_conv_nth neq_Nil_conv)
    then have "no_save a" using assms(1,4) nth_mem [OF j(1)] by (force simp: saveless_def)
    show ?thesis
    proof (cases "cbuf (f_rchan s)")
      case Nil
      then have "chan_send (f_rchan s) r = Sent (f_rchan s\<lparr>cbuf := [r]\<rparr>)" for r
        using assms(1) by (simp add: saveless_def chan_send_def)
      then have "flap_move su f (FAct i j) s \<noteq> None"
        using i j \<open>no_save a\<close> by (cases a rule: no_save.cases) (auto simp: send_or_def)
      then show ?thesis using assms(3) flap_step.move by blast
    next
      case (Cons r rs)
      then have "flap_move su f FCollect s \<noteq> None" by (simp add: chan_recv_def)
      then show ?thesis using assms(3) flap_step.move by blast
    qed
  qed
qed

section \<open>Properties\<close>

lemma choose_all: "0 < n \<Longrightarrow> choose_clients 0 n dcs = dcs"
  by (induction dcs) auto


text \<open>
  C24: with a configuration that passed its check, a flapping client stays connected for at least the
  minimal and less than the maximal interval; equal intervals pass the check as well and make
  the first flap panic.
\<close>

theorem flap_sleep_range:
  assumes "init_flapping su = Ok su'" and "Flapping su' = Some f"
    and "0 \<le> MinInterval f" and "in_int64 (MaxInterval f)"
    and "\<forall>n > 0. 0 \<le> rnd n \<and> rnd n < n"
  shows "(flap_sleep rnd f = Panic \<longleftrightarrow> MinInterval f = MaxInterval f)
    \<and> (\<forall>d. flap_sleep rnd f = Ok d \<longrightarrow> MinInterval f \<le> d \<and> d < MaxInterval f)"
proof -
  have le: "MinInterval f \<le> MaxInterval f"
    using assms(1,2) by (auto simp: init_flapping_Ok_iff)
  let ?r = "MaxInterval f - MinInterval f"
  have "in_int64 ?r"
    using assms(3,4) le by (simp add: in_int64_def min_int64_def)
  then have r: "wrap64 ?r = ?r" by (rule wrap64_in)
  have d: "wrap64 (MinInterval f + rnd ?r) = MinInterval f + rnd ?r" "rnd ?r < ?r" "0 \<le> rnd ?r"
    if "0 < ?r"
  proof -
    show "rnd ?r < ?r" "0 \<le> rnd ?r" using assms(5) that by blast+
    then show "wrap64 (MinInterval f + rnd ?r) = MinInterval f + rnd ?r"
      using assms(3,4) by (intro wrap64_in) (simp add: in_int64_def min_int64_def)
  qed
  show ?thesis
    using le d by (auto simp: flap_sleep_def Let_def r)
qed

theorem flap_sleep_range_witness:
  "flap_sleep (\<lambda>n. n - 1) \<lparr>FlapNum = 1, MinInterval = 5, MaxInterval = 5, StayDownDur = 10\<rparr> = Panic"
proof -
  let ?f = "\<lparr>FlapNum = 1, MinInterval = 5, MaxInterval = 5, StayDownDur = 10\<rparr>"
  let ?su = "example_run_setup\<lparr>Flapping := Some ?f\<rparr>"
  have "init_flapping ?su = Ok ?su" by code_simp
  from flap_sleep_range [OF this, of ?f "\<lambda>n. n - 1"] show ?thesis
    by (simp add: in_int64_def min_int64_def max_int64_def)
qed

definition example_flap :: FlappingConf where
  "example_flap = \<lparr>FlapNum = 1, MinInterval = 5, MaxInterval = 30, StayDownDur = 10\<rparr>"

definition example_flap_setup :: testSetup where
  "example_flap_setup = example_run_setup\<lparr>Flapping := Some example_flap\<rparr>"

definition example_dc4 :: DClient where
  "example_dc4 = example_dc\<lparr>d6 := None\<rparr>"

text \<open>A client that has no lease yet flaps once, up to the sleep before its second release.\<close>

definition example_flap_moves :: "fmove list" where
  "example_flap_moves = replicate 5 (Turn 0 example_world (\<lambda>n. n - 1)) @ replicate 7 (FAct 0 0)
     @ [FCollect, Turn 0 example_world (\<lambda>n. n - 1)]"

abbreviation example_flap_start :: fsys where
  "example_flap_start \<equiv> flap_start example_flap_setup (Some (make_chan 8)) (Some (make_chan 8)) [example_dc4]"

abbreviation example_flap_end :: fsys where
  "example_flap_end \<equiv> the (run_flap example_flap_setup example_flap example_flap_moves example_flap_start)"

lemma example_flap_reach:
  "(flap_step example_flap_setup example_flap)\<^sup>*\<^sup>* example_flap_start example_flap_end"
proof -
  have "\<not> Option.is_none (run_flap example_flap_setup example_flap example_flap_moves example_flap_start)"
    by code_simp
  then have "run_flap example_flap_setup example_flap example_flap_moves example_flap_start
      = Some example_flap_end" by (simp add: Option.is_none_def)
  then show ?thesis by (rule run_flap_reach)
qed

lemma flap_reach_saves:
  assumes "flap_begins su c s" and "(flap_step su f)\<^sup>*\<^sup>* s t"
  shows "saves_inv (length (cbuf c)) t"
proof -
  have "saveV4Chan su \<noteq> None" using assms(1) by (simp add: flap_begins_def)
  then have "(\<lambda>s t. saveV4Chan su \<noteq> None \<and> flap_step su f s t)\<^sup>*\<^sup>* s t"
    using assms(2) by simp
  from flap_saves.inv_reachable [OF assms(1) this] show ?thesis .
qed

text \<open>
  C15: when leases are saved, all flapping clients together complete at most eight successful DHCPv4
  dials, less the leases still in the channel, however long the program runs: every such dial
  first sends its lease into a channel from which nobody receives any more.
\<close>

theorem flap_dials_bounded:
  assumes "saveV4Chan su = Some saveChanDepth" and "ccap c = saveChanDepth" "\<not> cclosed c" "chan_ok c"
    and "(flap_step su f)\<^sup>*\<^sup>* (flap_start su (Some c) c6 dcs) t"
  shows "successes t + length (cbuf c) \<le> 8"
proof -
  have "flap_begins su c (flap_start su (Some c) c6 dcs)"
    using assms(1-4) by (auto simp: flap_begins_def)
  from saves_inv_bound [OF flap_reach_saves [OF this assms(5)]] show ?thesis
    by (simp add: saveChanDepth_def)
qed

theorem flap_dials_bounded_witness: "successes example_flap_end = 1 \<and> successes example_flap_end \<le> 8"
proof -
  have "saveV4Chan example_flap_setup = Some saveChanDepth" by code_simp
  moreover have "ccap (make_chan 8) = saveChanDepth" by (simp add: saveChanDepth_def)
  moreover have "successes example_flap_end = 1" by code_simp
  ultimately show ?thesis
    using flap_dials_bounded [OF _ _ _ _ example_flap_reach] by fastforce
qed

text \<open>
  C17: a flapping client whose next effect is to send its DHCPv4 lease into the full channel stays
  there for ever, also when the context is done: it never looks at the context again, so that
  the wait for the flapping clients never ends.
\<close>

theorem flap_hangs:
  assumes "i < length (f_clients s)" and "f_pc (f_clients s ! i) \<noteq> FlapEnd"
    and "j < length (f_live (f_clients s ! i))"
    and "f_live (f_clients s ! i) ! j = Do (EvSave (Saved4 k l)) # es"
    and "f_s4 s = Some c" "\<not> cclosed c" "ccap c \<le> length (cbuf c)"
    and "(flap_step su f)\<^sup>*\<^sup>* s t"
  shows "f_pc (f_clients t ! i) = f_pc (f_clients s ! i) \<and> \<not> idle (f_clients t ! i)"
proof -
  have "stuck i j (Do (EvSave (Saved4 k l)) # es) (f_pc (f_clients s ! i)) c s"
    using assms by (simp add: stuck_def)
  from flap_stuck.inv_reachable [OF this assms(8)] show ?thesis
    using nth_mem [of j "f_live (f_clients t ! i)"] by (auto simp: stuck_def idle_def)
qed

definition example_full :: "saved gochan" where
  "example_full = (make_chan 8)\<lparr>cbuf := replicate 8 (Saved4 ''a'' newV4Lease)\<rparr>"

abbreviation example_blocked :: fsys where
  "example_blocked \<equiv> the (run_flap example_flap_setup example_flap
     (replicate 5 (Turn 0 example_world (\<lambda>n. n - 1)) @ replicate 3 (FAct 0 0))
     (flap_start example_flap_setup (Some example_full) None [example_dc4]))"

theorem flap_hangs_witness:
  "\<not> idle (f_clients (example_blocked\<lparr>f_done := True\<rparr>) ! 0)"
proof -
  have "\<not> f_crashed example_blocked" "\<not> f_done example_blocked" by code_simp+
  then have r: "(flap_step example_flap_setup example_flap)\<^sup>*\<^sup>* example_blocked
      (example_blocked\<lparr>f_done := True\<rparr>)"
    by (intro r_into_rtranclp flap_step.move [of _ _ _ Cancel]) simp_all
  have h: "hd (hd (f_live (f_clients example_blocked ! 0)))
       = Do (EvSave (Saved4 ''02:00:00:00:00:07|100'' (the (d4Lease (f_dc (f_clients example_blocked ! 0))))))"
    "f_live (f_clients example_blocked ! 0) \<noteq> []" "hd (f_live (f_clients example_blocked ! 0)) \<noteq> []"
    "0 < length (f_clients example_blocked)" "f_pc (f_clients example_blocked ! 0) \<noteq> FlapEnd"
    "f_s4 example_blocked = Some example_full" "\<not> cclosed example_full"
    "ccap example_full \<le> length (cbuf example_full)"
    by code_simp+
  then have "f_live (f_clients example_blocked ! 0) ! 0
      = Do (EvSave (Saved4 ''02:00:00:00:00:07|100'' (the (d4Lease (f_dc (f_clients example_blocked ! 0))))))
        # tl (hd (f_live (f_clients example_blocked ! 0)))"
    by (simp add: hd_conv_nth [symmetric]) (metis list.collapse)
  from flap_hangs [OF h(4,5) _ this h(6,7,8) r] h(2) show ?thesis by simp
qed

text \<open>
  C16: when no leases are saved, flapping ends once the context is done: no run from there is longer
  than the rank of its start, and a state in which nothing can move any more is one in which all
  flapping clients have returned (or a panic has ended the program).
\<close>

theorem flap_stops:
  assumes "saveV4Chan su = None" "saveV6Chan su = None"
    and "(flap_step su f)\<^sup>*\<^sup>* (flap_start su c4 c6 dcs) s" and "f_done s"
  shows "(\<forall>n t. (flap_step su f ^^ n) s t \<longrightarrow> n \<le> flap_rank s)
    \<and> (\<forall>t. (flap_step su f)\<^sup>*\<^sup>* s t \<and> (\<forall>u. \<not> flap_step su f t u)
          \<longrightarrow> f_crashed t \<or> (\<forall>c \<in> set (f_clients t). f_pc c = FlapEnd \<and> idle c))"
proof (intro conjI allI impI)
  fix n t assume "(flap_step su f ^^ n) s t"
  from flap_stop.bounded_run [OF this assms(4)] show "n \<le> flap_rank s" by simp
next
  fix t assume t: "(flap_step su f)\<^sup>*\<^sup>* s t \<and> (\<forall>u. \<not> flap_step su f t u)"
  then have "(flap_step su f)\<^sup>*\<^sup>* (flap_start su c4 c6 dcs) t"
    using rtranclp_trans [OF assms(3)] by blast
  then have "(\<lambda>s t. saveV4Chan su = None \<and> saveV6Chan su = None \<and> flap_step su f s t)\<^sup>*\<^sup>*
      (flap_start su c4 c6 dcs) t" using assms(1,2) by simp
  then have "saveless t" using flap_saveless.inv_reachable by blast
  moreover have "f_done t" using flap_stop.inv_steps t assms(4) by blast
  ultimately show "f_crashed t \<or> (\<forall>c \<in> set (f_clients t). f_pc c = FlapEnd \<and> idle c)"
    using flap_progress t by blast
qed

definition example_unsaved :: testSetup where
  "example_unsaved = (newDefaultConf 0x8100)\<lparr>Flapping := Some example_flap\<rparr>"

abbreviation example_stopping :: fsys where
  "example_stopping \<equiv> flap_start example_unsaved None None [example_dc]\<lparr>f_done := True\<rparr>"

lemma flap_step_the:
  "\<not> Option.is_none (flap_move su f m s) \<Longrightarrow> \<not> f_crashed s
    \<Longrightarrow> flap_step su f s (the (flap_move su f m s))"
  by (rule flap_step.move) (auto simp: Option.is_none_def)

theorem flap_stops_witness: "1 \<le> flap_rank example_stopping"
proof -
  let ?s = "flap_start example_unsaved None None [example_dc]"
  have "(flap_step example_unsaved example_flap)\<^sup>*\<^sup>* ?s example_stopping"
    by (intro r_into_rtranclp flap_step.move [of _ _ _ Cancel]) (simp_all add: flap_start_def)
  moreover have "saveV4Chan example_unsaved = None" "saveV6Chan example_unsaved = None" by code_simp+
  moreover have "f_done example_stopping" by simp
  moreover have "(flap_step example_unsaved example_flap ^^ 1) example_stopping
      (the (flap_move example_unsaved example_flap (Turn 0 example_world (\<lambda>n. 0)) example_stopping))"
    unfolding relpowp_1 by (rule flap_step_the) code_simp+
  ultimately show ?thesis using flap_stops [of example_unsaved example_flap None None "[example_dc]"] by blast
qed

section \<open>Clients that get their first lease while flapping\<close>

definition same_others :: "DClient list \<Rightarrow> fsys \<Rightarrow> bool" where
  "same_others dcs s \<longleftrightarrow> map (\<lambda>c. d4OtherClnt (f_dc c)) (f_clients s) = map d4OtherClnt dcs"

lemma same_others_set:
  assumes "same_others dcs s" and "i < length (f_clients s)"
    and "d4OtherClnt (f_dc c) = d4OtherClnt (f_dc (f_clients s ! i))" "f_clients t = (f_clients s)[i := c]"
  shows "same_others dcs t"
  using assms unfolding same_others_def
  by (simp add: map_update) (metis list_update_id nth_map)

interpretation flap_others: step_invariant "\<lambda>s. \<exists>c4 c6. s = flap_start su c4 c6 dcs" "flap_step su f"
    "same_others (flapping_clients (Flapping su) dcs)" for su dcs f
proof
  fix s t
  show "\<exists>c4 c6. s = flap_start su c4 c6 dcs \<Longrightarrow> same_others (flapping_clients (Flapping su) dcs) s"
    by (auto simp: flap_start_def same_others_def)
  assume "flap_step su f s t" and so: "same_others (flapping_clients (Flapping su) dcs) s"
  then obtain m where m: "flap_move su f m s = Some t" by (auto elim: flap_stepE)
  show "same_others (flapping_clients (Flapping su) dcs) t"
  proof (cases m)
    case (Turn i W rnd)
    from m [unfolded Turn] show ?thesis
      by (rule flap_turn_move)
        (use so in \<open>auto simp: same_others_def [of _ "s\<lparr>f_crashed := True\<rparr>"] same_others_def [of _ s]
          intro: same_others_set [OF so] dest: flap_turn_other\<close>)
  next
    case (FAct i j)
    from m [unfolded FAct] obtain a es where a: "i < length (f_clients s)"
      "case a of Crash \<Rightarrow> t = s\<lparr>f_crashed := True\<rparr>
       | Do e \<Rightarrow> do_flap_ev e (set_client i (popped_client j es (f_clients s ! i)) s) = Some t"
      by (rule flap_act_move)
    show ?thesis
    proof (cases a)
      case (Do e)
      with a(2) do_flap_ev_clients have "f_clients t = (f_clients s)[i := popped_client j es (f_clients s ! i)]"
        by fastforce
      then show ?thesis by (intro same_others_set [OF so a(1)]) simp_all
    qed (use a(2) so in \<open>simp add: same_others_def\<close>)
  qed (use m so in \<open>auto simp: same_others_def split: recvres.splits if_splits\<close>)
qed

text \<open>
  C22: a client whose first DHCPv4 dial failed has no client for releases; if a later dial of its
  flapping succeeds, its next release ends the program with a panic.
\<close>

theorem flap_redial_panics:
  assumes "(flap_step su f)\<^sup>*\<^sup>* (flap_start su c4 c6 dcs) s"
    and "i < length (f_clients s)" and "d4OtherClnt (flapping_clients (Flapping su) dcs ! i) = None"
    and "f_pc (f_clients s ! i) = Poll2" "idle (f_clients s ! i)" "\<not> f_done s" "\<not> f_crashed s"
    and "d4Lease (f_dc (f_clients s ! i)) \<noteq> None"
  shows "\<exists>t. (flap_step su f)\<^sup>*\<^sup>* s t \<and> f_crashed t"
proof -
  let ?c = "f_clients s ! i"
  let ?u = "set_client i (?c\<lparr>f_pc := Poll3, f_live := [[Crash]]\<rparr>) s"
  have "same_others (flapping_clients (Flapping su) dcs) s"
    using flap_others.inv_reachable [OF _ assms(1)] by blast
  then have "d4OtherClnt (f_dc ?c) = None"
    using assms(2,3) unfolding same_others_def by (metis length_map nth_map)
  then have "script_of (releasev4 W False (f_dc ?c)) = [Crash]" for W
    using assms(8) by (auto simp: releasev4_def script_of_def done_evs_def split: option.splits)
  then have "flap_move su f (Turn i (example_world) (\<lambda>_. 0)) s = Some ?u"
    using assms(2,4-6,8) by (simp add: flap_turn_def)
  then have 1: "flap_step su f s ?u" by (rule flap_step.move [OF assms(7)])
  have "flap_move su f (FAct i 0) ?u = Some (?u\<lparr>f_crashed := True\<rparr>)" using assms(2) by simp
  then have "flap_step su f ?u (?u\<lparr>f_crashed := True\<rparr>)" 
    by (rule flap_step.move [rotated]) (use assms(7) in simp)
  with 1 show ?thesis by (intro exI [of _ "?u\<lparr>f_crashed := True\<rparr>"]) simp
qed

theorem flap_redial_panics_witness:
  "\<exists>t. (flap_step example_flap_setup example_flap)\<^sup>*\<^sup>* example_flap_end t \<and> f_crashed t"
proof (rule flap_redial_panics [OF example_flap_reach])
  show "0 < length (f_clients example_flap_end)"
    "d4OtherClnt (flapping_clients (Flapping example_flap_setup) [example_dc4] ! 0) = None"
    "f_pc (f_clients example_flap_end ! 0) = Poll2" "idle (f_clients example_flap_end ! 0)"
    "\<not> f_done example_flap_end" "\<not> f_crashed example_flap_end"
    by code_simp+
  have "\<not> Option.is_none (d4Lease (f_dc (f_clients example_flap_end ! 0)))" by code_simp
  then show "d4Lease (f_dc (f_clients example_flap_end ! 0)) \<noteq> None" by (simp add: Option.is_none_def)
qed

end
