(* ===== verification/Typing.thy ===== *)
theory Typing
  imports Run
begin

text \<open>
  When a dial cannot panic. The type assertions and unchecked pointers of a dial (\<open>dialv4\<close>,
  \<open>dialv6\<close> in \<open>sched.go\<close>, \<open>addrStr\<close> in \<open>lease.go\<close>) rest on the types of the options
  a server sends and on the wiring of the client; both are stated here, and shown to be enough.
\<close>

section \<open>Types of options\<close>

fun is_iana :: "v6opt \<Rightarrow> bool" where
  "is_iana (OptIANA i as) = True"
| "is_iana _ = False"

fun is_iapd :: "v6opt \<Rightarrow> bool" where
  "is_iapd (OptIAPD i ps) = True"
| "is_iapd _ = False"

text \<open>
  An option as the library's parser makes it: never nil, and an IA_NA (code 3) or IA_PD (code 25)
  is not left as an option of unknown type.
\<close>

fun typed_opt :: "v6opt \<Rightarrow> bool" where
  "typed_opt (OptGeneric6 c d) = (c \<noteq> 3 \<and> c \<noteq> 25)"
| "typed_opt NilOption = False"
| "typed_opt _ = True"

definition typed_opts :: "v6opt list \<Rightarrow> bool" where
  "typed_opts os = list_all typed_opt os"

text \<open>
  What \<open>Options.Get\<close>, \<open>OneIANA\<close> and \<open>OneIAPD\<close> promise on parsed options: the ones with
  the code asked for, in order, and the first of them or nil.
\<close>

definition get_law :: "v6api \<Rightarrow> bool" where
  "get_law A \<longleftrightarrow>
     (\<forall>os. typed_opts os \<longrightarrow>
        get_all A os OptionIANA = filter is_iana os \<and> get_all A os OptionIAPD = filter is_iapd os
        \<and> one_iana A os = find is_iana os \<and> one_iapd A os = find is_iapd os)"

text \<open>An answer has the types of a parsed message and the identity associations the dial wants.\<close>

definition answer_ok :: "testSetup \<Rightarrow> v6msg \<Rightarrow> bool" where
  "answer_ok su m \<longleftrightarrow>
     typed_opts (msg_opts m)
     \<and> (NeedNA su \<longrightarrow> list_ex is_iana (msg_opts m))
     \<and> (NeedPD su \<longrightarrow> list_ex is_iapd (msg_opts m))"

definition typed_world :: "key_const \<Rightarrow> (econn \<Rightarrow> bytes) \<Rightarrow> testSetup \<Rightarrow> world \<Rightarrow> bool" where
  "typed_world K key su W \<longleftrightarrow>
     w_key_const W = K \<and> w_key W = key \<and> get_law (w_v6 W)
     \<and> (\<forall>n c msg t m. SendAndRead W n c msg t = Some m \<longrightarrow> answer_ok su m)"

section \<open>Wiring of a client\<close>

text \<open>
  A DHCP client comes with a connection of its protocol, whose key can be printed, and the message
  type is one a dial knows.
\<close>

definition wired :: "key_const \<Rightarrow> (econn \<Rightarrow> bytes) \<Rightarrow> econn option \<Rightarrow> bool" where
  "wired K key ec \<longleftrightarrow> (\<exists>e i. ec = Some e \<and> getClientIDFromL2Key K (key e) = Ok i)"

definition client_wired :: "key_const \<Rightarrow> (econn \<Rightarrow> bytes) \<Rightarrow> testSetup \<Rightarrow> DClient \<Rightarrow> bool" where
  "client_wired K key su dc \<longleftrightarrow>
     (d4 dc \<noteq> None \<longrightarrow> wired K key (v4econn (cfg dc)))
     \<and> (d6 dc \<noteq> None \<longrightarrow> wired K key (v6econn (cfg dc)) \<and> V6MsgType su \<in> {MTSolicit, MTRelayForward})"

section \<open>No panic\<close>

lemma list_ex_find: "list_ex P xs \<Longrightarrow> \<exists>x. find P xs = Some x"
  by (induction xs) auto

lemma iana_cidrs_typed:
  "iana_cidrs (filter is_iana os)
     = Ok (concat (map (\<lambda>x. map (\<lambda>a. Cidr6 a 128) (iana_addresses x)) (filter is_iana os)))"
proof (induction os)
  case (Cons x os)
  then show ?case by (cases x) simp_all
qed simp

lemma iapd_cidrs_typed:
  "iapd_cidrs (filter is_iapd os)
     = Ok (concat (map (\<lambda>x. map (\<lambda>(a, n). Cidr6 a n) (iapd_prefixes x)) (filter is_iapd os)))"
proof (induction os)
  case (Cons x os)
  then show ?case by (cases x) simp_all
qed simp

lemma v6_addrStr_typed:
  assumes "get_law A" and "typed_opts (ReplyOptions l)"
  shows "is_ok (v6_addrStr A l)"
  using assms by (simp add: v6_addrStr_def get_law_def iana_cidrs_typed iapd_cidrs_typed)

lemma v6_loop_no_panic: "snd (v6_Apply_loop N b as) \<noteq> Panic"
  by (induction as) (auto split: prod.splits)

lemma v6_Apply_typed:
  assumes "get_law A" and "typed_opts (ReplyOptions l)"
  shows "snd (v6_Apply A N l ifname b) \<noteq> Panic"
  using v6_addrStr_typed [OF assms] v6_loop_no_panic by (auto simp: v6_Apply_def)

lemma checkResp_typed:
  assumes "get_law A" and "answer_ok su m"
  shows "checkResp A su m \<noteq> Panic"
  using assms
  by (auto simp: checkResp_def check_na_def check_pd_def answer_ok_def get_law_def gbind_eq_Panic
      dest!: list_ex_find split: if_splits)

lemma request_no_panic: "NewRequestFromAdv A adv ms \<noteq> Panic"
  by (simp add: NewRequestFromAdv_def Let_def split: option.split)

lemma solicit_no_panic: "buildSolicit A t su c \<noteq> Panic"
  by (simp add: buildSolicit_def Let_def split: option.split)

lemma abind_no_panic:
  assumes "snd m \<noteq> Panic" and "\<And>x. snd m = Ok x \<Longrightarrow> snd (f x) \<noteq> Panic"
  shows "snd (abind m f) \<noteq> Panic"
  using assms by (cases "(m, f)" rule: abind.cases) (auto split: prod.split)

lemma lift_no_panic [simp]: "snd (lift_err h r) = Panic \<longleftrightarrow> r = Panic"
  by (cases r) auto

lemma send_lease_no_panic:
  assumes "wired (w_key_const W) (w_key W) ec"
  shows "snd (send_lease W ch ec mk) \<noteq> Panic"
  using assms by (auto simp: send_lease_def key_id_def wired_def split: option.split)

lemma after_no_panic:
  assumes "wired (w_key_const W) (w_key W) ec" and "snd p \<noteq> Panic"
  shows "snd (abind (if b then apply_ops p else ([], Ok ())) (\<lambda>_. send_lease W ch ec mk)) \<noteq> Panic"
  using assms by (intro abind_no_panic send_lease_no_panic) (auto simp: apply_ops_def split: prod.split)

lemma v4_Apply_lease:
  "Lease4 l = Some ml \<Longrightarrow> snd (v4_Apply B N l ifname b) \<noteq> Panic"
  by (simp add: v4_Apply_def v4_addrStr_def)

lemma exchange6_no_panic:
  assumes "get_law (w_v6 W)" and "\<And>n c msg t m. SendAndRead W n c msg t = Some m \<Longrightarrow> answer_ok su m"
  shows "snd (exchange6 W su c sol) \<noteq> Panic"
  unfolding exchange6_def
  by (intro abind_no_panic)
    (auto simp: request_no_panic checkResp_typed [OF assms(1)] dest: assms(2) split: option.splits)

lemma get_reply_no_panic:
  assumes "typed_world K key su W" and "V6MsgType su \<in> {MTSolicit, MTRelayForward}"
  shows "snd (get_reply W su dc c) \<noteq> Panic"
proof -
  have "snd (exchange6 W su c sol) \<noteq> Panic" for sol
    using assms(1) by (intro exchange6_no_panic) (auto simp: typed_world_def)
  with assms(2) show ?thesis
    unfolding get_reply_def by (intro abind_no_panic) (auto simp: solicit_no_panic)
qed

lemma get_reply_answer:
  assumes "get_reply W su dc c = (evs, Ok reply)" and "typed_world K key su W"
  shows "typed_opts (msg_opts reply)"
proof -
  from get_reply_Ok [OF assms(1)] obtain sol where "exchange6 W su c sol = (evs, Ok reply)" by blast
  from exchange6_Ok [OF this] assms(2) show ?thesis
    by (auto simp: typed_world_def answer_ok_def)
qed

lemma dialv6_body_no_panic:
  assumes "typed_world K key su W" and "V6MsgType su \<in> {MTSolicit, MTRelayForward}"
    and "wired K key (v6econn (cfg dc))"
  shows "snd (snd (dialv6_body W su dc c)) \<noteq> Panic"
proof -
  obtain evs r where g: "get_reply W su dc c = (evs, r)" by (metis prod.exhaust)
  show ?thesis
  proof (cases r)
    case (Ok reply)
    let ?l = "\<lparr>MAC6 = Mac (cfg dc), ReplyOptions = msg_opts reply, LeaseType = V6MsgType su,
        VLANList6 = VLANs (cfg dc), IDOptions6 = V6Options (cfg dc),
        RelayIDOptions = V6RelayOptions (cfg dc)\<rparr>"
    have "get_law (w_v6 W)" "w_key_const W = K" "w_key W = key"
      using assms(1) by (simp_all add: typed_world_def)
    moreover have "typed_opts (ReplyOptions ?l)"
      using get_reply_answer [OF g [unfolded Ok] assms(1)] by simp
    ultimately show ?thesis
      using assms(3) v6_Apply_typed [of "w_v6 W" ?l] after_no_panic [of W "v6econn (cfg dc)"]
      by (simp add: dialv6_body_def g Ok Let_def)
  qed (use get_reply_no_panic [OF assms(1,2), of dc c] g in \<open>simp_all add: dialv6_body_def\<close>)
qed

lemma dialv4_body_no_panic:
  assumes "typed_world K key su W" and "wired K key (v4econn (cfg dc))"
  shows "snd (snd (dialv4_body W su dc c)) \<noteq> Panic"
proof (cases "Request4 W c (dora_mods su (cfg dc))")
  case (Some lease)
  have "w_key_const W = K" "w_key W = key" using assms(1) by (simp_all add: typed_world_def)
  with assms(2) Some show ?thesis
    by (simp add: dialv4_body_def Let_def after_no_panic v4_Apply_lease)
qed (simp add: dialv4_body_def)

lemma dial_calm:
  assumes "typed_world K key su (W dc)" and "client_wired K key su dc"
  shows "calm W su dc"
proof -
  have "snd (snd (dialv4 (W dc) su dc)) \<noteq> Panic"
  proof (cases "d4 dc")
    case (Some c)
    with dialv4_body_no_panic [OF assms(1), of dc c] assms(2) show ?thesis
      by (auto simp: dialv4_def client_wired_def split: prod.split)
  qed (simp add: dialv4_def)
  moreover have "snd (snd (dialv6 (W dc) su dc)) \<noteq> Panic"
  proof (cases "d6 dc")
    case (Some c)
    with dialv6_body_no_panic [OF assms(1), of dc c] assms(2) show ?thesis
      by (auto simp: dialv6_def client_wired_def split: prod.split)
  qed (simp add: dialv6_def)
  ultimately show ?thesis by (simp add: calm_def)
qed

section \<open>Clients of a fresh start\<close>

lemma client_id_Ok: "key_ok K k \<Longrightarrow> is_ok (getClientIDFromL2Key K k)"
  by (simp add: client_id_eq)

lemma new_client_type:
  assumes "new_client NL R K key su c = Ok dc" and "d6 dc \<noteq> None"
  shows "V6MsgType su \<in> {MTSolicit, MTRelayForward}"
proof -
  from assms(1) obtain k c4 where 1: "client_v4 NL K key su c = Ok (k, c4)"
    by (auto simp: new_client_def gbind_eq_Ok)
  with assms(1) obtain k' c6 ra where 2: "client_v6 NL R key su c k = Ok (k', c6, ra)"
    by (auto simp: new_client_def gbind_eq_Ok)
  have "v6econn c \<noteq> None" using new_client_OkD(3) [OF assms(1)] assms(2) by simp
  with 2 obtain ec where "new_d6 NL R su c ec = Ok (the c6, ra)"
    by (auto simp: client_v6_def gbind_eq_Ok split: option.splits)
  then show ?thesis by (auto simp: new_d6_def Let_def gbind_eq_Ok split: if_splits)
qed

text \<open>\<open>NewSched\<close> wires every client it makes.\<close>

lemma NewSched_wired:
  assumes "NewSched NL R A L K key loaded su = Ok s" and "Action su = actionDORA"
    and "mac_law L" and "key_law K key" and "length (StartMAC su) = 6" and "dc \<in> ran (ClntList s)"
  shows "client_wired K key su dc"
proof -
  from NewSched_DORA [OF assms(1,2)] obtain cfgs dcs where g: "genClientConfigurations A L su = Ok cfgs"
    and a: "list_all2 (\<lambda>c dc. new_client NL R K key su c = Ok dc) cfgs dcs"
    and t: "ClntList s = table_of dcs Map.empty"
    by blast
  from assms(6) t have "dc \<in> set dcs" by (auto simp: ran_def dest: table_of_in)
  from list_all2_from [OF a this] obtain c where
    c: "c \<in> set cfgs" "new_client NL R K key su c = Ok dc" by blast
  have m: "length (Mac c) = 6" using gen_macs_ok [OF assms(3) g assms(5)] c(1) by blast
  have w: "wired K key (Some ec)" if "ec_mac ec = Mac c" for ec
    using assms(4) m that client_id_Ok [of K "key ec"] by (auto simp: wired_def key_law_def)
  note n = new_client_OkD [OF c(2)] and e = genClientConfigurations_conns [OF g c(1)]
  have "wired K key (v4econn (cfg dc))" if "d4 dc \<noteq> None"
    using that n(1,2) e(1) w by (auto split: if_splits)
  moreover have "wired K key (v6econn (cfg dc))" if "d6 dc \<noteq> None"
    using that n(1,3) e(2) w by (auto split: if_splits)
  ultimately show ?thesis using new_client_type [OF c(2)] by (auto simp: client_wired_def)
qed

section \<open>The property\<close>

text \<open>
  C7: the clients a fresh start makes are well typed for their dials: as long as every answer of the
  server is a parsed message with the identity associations the configuration wants, no dial of
  either protocol panics, whatever the server answers otherwise.
\<close>

theorem dials_well_typed:
  assumes "NewSched NL R A L K key loaded su = Ok s" and "Action su = actionDORA"
    and "mac_law L" and "key_law K key" and "length (StartMAC su) = 6" and "dc \<in> ran (ClntList s)"
    and "typed_world K key su W"
  shows "snd (snd (dialv4 W su dc)) \<noteq> Panic \<and> snd (snd (dialv6 W su dc)) \<noteq> Panic"
  using dial_calm [of K key su "\<lambda>_. W" dc] NewSched_wired [OF assms(1-6)] assms(7)
  by (simp add: calm_def)

text \<open>A server that answers with its own options and one address.\<close>

definition typed_example_world :: world where
  "typed_example_world = example_world\<lparr>SendAndRead := (\<lambda>n c m t. Some \<lparr>msg_type = t,
     msg_opts = [OptServerID (DUIDOther [1]), OptClientID (DUIDOther [2]), OptIANA [0, 0, 0, 0] [V6Addr 5]]\<rparr>)\<rparr>"

lemma is_iana_case: "is_iana = (\<lambda>x. case x of OptIANA _ _ \<Rightarrow> True | _ \<Rightarrow> False)"
proof
  fix x
  show "is_iana x = (case x of OptIANA _ _ \<Rightarrow> True | _ \<Rightarrow> False)" by (cases x) simp_all
qed

lemma is_iapd_case: "is_iapd = (\<lambda>x. case x of OptIAPD _ _ \<Rightarrow> True | _ \<Rightarrow> False)"
proof
  fix x
  show "is_iapd x = (case x of OptIAPD _ _ \<Rightarrow> True | _ \<Rightarrow> False)" by (cases x) simp_all
qed

lemma example_get_law: "get_law example_api"
  by (simp add: get_law_def example_api_def is_iana_case is_iapd_case)

lemma typed_example: "typed_world example_key_const example_key su typed_example_world"
  if "\<not> NeedPD su"
  using that example_get_law
  by (simp add: typed_world_def typed_example_world_def answer_ok_def typed_opts_def example_world_def)

theorem dials_well_typed_witness:
  "\<exists>dc. dc \<in> ran (ClntList (the_ok example_sched))
     \<and> snd (snd (dialv6 typed_example_world example_sched_setup dc)) \<noteq> Panic"
proof -
  have "card (dom (ClntList (the_ok example_sched))) = 3"
    using NewSched_table [OF example_sched_ok example_sched_fields(1) example_mac_law example_key_law
      example_sched_fields(4,5)] example_sched_fields(2,6) by simp
  then have "dom (ClntList (the_ok example_sched)) \<noteq> {}" by (metis card.empty zero_neq_numeral)
  then obtain dc where dc: "dc \<in> ran (ClntList (the_ok example_sched))"
    by (metis domD ex_in_conv ranI)
  have "\<not> NeedPD example_sched_setup" by code_simp
  note t = typed_example [OF this]
  show ?thesis
    using dials_well_typed [OF example_sched_ok example_sched_fields(1) example_mac_law
        example_key_law example_sched_fields(4) dc t] dc by blast
qed

end
