(* ===== verification/LeaseFile.thy ===== *)
theory LeaseFile
  imports Clients
begin

text \<open>
  The lease file (\<open>lease.go\<close>, \<open>v4lease.go\<close>): how leases are turned into bytes and back,
  the file written by \<open>saveLeaseToFiles\<close> and read by \<open>loadLeaseFromFile\<close>, and what a
  later start of the program finds in it.
\<close>

section \<open>The encoders\<close>

text \<open>The structs that are encoded in place of the leases.\<close>

record exportLease =
  el_Offer :: bytes
  el_ACK :: bytes
  el_CreationTime :: gotime

record exportV4Lease =
  ev_Lease :: bytes
  ev_VLANAList :: bytes
  ev_IDOptions :: bytes

record v6LeaseExport =
  ex_MAC :: bytes
  ex_ReplyOptionsBytes :: bytes
  ex_Type :: mtype
  ex_VLANList :: vlans
  ex_IDOptionsBytes :: bytes
  ex_RelayIDOptionsBytes :: bytes

text \<open>
  A lease of the table as \<open>encoding/gob\<close> sees it: the bytes of its two
  \<open>MarshalBinary\<close> methods, a nil pointer left out.
\<close>

record stack_bytes =
  sb_V4 :: "bytes option"
  sb_V6 :: "bytes option"

datatype codec_error =
  EncodeFailed | DecodeFailed | BadPacket | BadVlans | BadOptions | FileUnreadable | FileUnwritable

text \<open>
  The encoders of the libraries: \<open>encoding/gob\<close> on the three structs above and on the
  table, which it sends entry by entry (an encoder may fail), the binary form of packets, VLAN
  tags and option lists. \<open>None\<close> is an error. \<open>dhcpv4.Options.FromBytes\<close> stores into
  its receiver, a Go map that may be nil (\<open>None\<close>), and gives the options the map then holds.
\<close>

record codec_lib =
  gob_lease :: "exportLease \<Rightarrow> bytes option"
  ungob_lease :: "bytes \<Rightarrow> exportLease option"
  gob_v4 :: "exportV4Lease \<Rightarrow> bytes option"
  ungob_v4 :: "bytes \<Rightarrow> exportV4Lease option"
  gob_v6 :: "v6LeaseExport \<Rightarrow> bytes option"
  ungob_v6 :: "bytes \<Rightarrow> v6LeaseExport option"
  gob_map :: "(clientID \<times> stack_bytes) list \<Rightarrow> bytes option"
  ungob_map :: "bytes \<Rightarrow> (clientID \<times> stack_bytes) list option"
  pkt_bytes :: "dhcp4 \<Rightarrow> bytes"
  bytes_pkt :: "bytes \<Rightarrow> dhcp4 option"
  vlans_bytes :: "vlans \<Rightarrow> bytes option"
  bytes_vlans :: "bytes \<Rightarrow> vlans option"
  opts4_bytes :: "(byte \<times> bytes) list \<Rightarrow> bytes"
  opts4_FromBytes :: "(byte \<times> bytes) list option \<Rightarrow> bytes
    \<Rightarrow> (codec_error, (byte \<times> bytes) list) gores"
  opts6_bytes :: "v6opt list \<Rightarrow> bytes"
  bytes_opts6 :: "bytes \<Rightarrow> v6opt list option"

definition of_opt :: "'e \<Rightarrow> 'a option \<Rightarrow> ('e, 'a) gores" where
  "of_opt e x = (case x of None \<Rightarrow> Fail e | Some v \<Rightarrow> Ok v)"

lemma of_opt_Ok [simp]: "of_opt e x = Ok v \<longleftrightarrow> x = Some v"
  by (simp add: of_opt_def split: option.split)

section \<open>DHCPv4 leases\<close>

definition marshal_myLease :: "codec_lib \<Rightarrow> myDHCPv4Lease \<Rightarrow> (codec_error, bytes) gores" where
  "marshal_myLease C l =
     of_opt EncodeFailed (gob_lease C
       \<lparr>el_Offer = pkt_bytes C (Offer l), el_ACK = pkt_bytes C (ACK l),
        el_CreationTime = CreationTime l\<rparr>)"

definition unmarshal_myLease :: "codec_lib \<Rightarrow> bytes \<Rightarrow> (codec_error, myDHCPv4Lease) gores" where
  "unmarshal_myLease C data =
     gbind (of_opt DecodeFailed (ungob_lease C data)) (\<lambda>x.
     gbind (of_opt BadPacket (bytes_pkt C (el_Offer x))) (\<lambda>off.
     gbind (of_opt BadPacket (bytes_pkt C (el_ACK x))) (\<lambda>ack.
       Ok \<lparr>Offer = off, ACK = ack, CreationTime = el_CreationTime x\<rparr>)))"

text \<open>Encoding a lease without its content calls a method through a nil pointer.\<close>

definition getExportV4Lease :: "codec_lib \<Rightarrow> v4Lease \<Rightarrow> (codec_error, exportV4Lease) gores" where
  "getExportV4Lease C l =
     (case Lease4 l of
        None \<Rightarrow> Panic
      | Some ml \<Rightarrow>
          gbind (marshal_myLease C ml) (\<lambda>b.
          gbind (of_opt EncodeFailed (vlans_bytes C (VLANList l))) (\<lambda>v.
            Ok \<lparr>ev_Lease = b, ev_VLANAList = v, ev_IDOptions = opts4_bytes C (IDOptions4 l)\<rparr>)))"

text \<open>\<open>receiver\<close> is the option map of the lease that is filled in.\<close>

definition setLease :: "codec_lib \<Rightarrow> (byte \<times> bytes) list option \<Rightarrow> exportV4Lease
    \<Rightarrow> (codec_error, v4Lease) gores" where
  "setLease C receiver el =
     gbind (unmarshal_myLease C (ev_Lease el)) (\<lambda>ml.
     gbind (of_opt BadVlans (bytes_vlans C (ev_VLANAList el))) (\<lambda>v.
     gbind (opts4_FromBytes C receiver (ev_IDOptions el)) (\<lambda>os.
       Ok \<lparr>Lease4 = Some ml, VLANList = v, IDOptions4 = os\<rparr>)))"

definition marshal_v4 :: "codec_lib \<Rightarrow> v4Lease \<Rightarrow> (codec_error, bytes) gores" where
  "marshal_v4 C l = gbind (getExportV4Lease C l) (\<lambda>x. of_opt EncodeFailed (gob_v4 C x))"

text \<open>\<open>gob\<close> decodes into a lease it has just allocated, whose option map is nil.\<close>

definition unmarshal_v4 :: "codec_lib \<Rightarrow> bytes \<Rightarrow> (codec_error, v4Lease) gores" where
  "unmarshal_v4 C data = gbind (of_opt DecodeFailed (ungob_v4 C data)) (setLease C None)"

section \<open>DHCPv6 leases\<close>

definition marshal_v6 :: "codec_lib \<Rightarrow> v6Lease \<Rightarrow> (codec_error, bytes) gores" where
  "marshal_v6 C l =
     of_opt EncodeFailed (gob_v6 C
       \<lparr>ex_MAC = MAC6 l, ex_ReplyOptionsBytes = opts6_bytes C (ReplyOptions l),
        ex_Type = LeaseType l, ex_VLANList = VLANList6 l,
        ex_IDOptionsBytes = opts6_bytes C (IDOptions6 l),
        ex_RelayIDOptionsBytes = opts6_bytes C (RelayIDOptions l)\<rparr>)"

definition unmarshal_v6 :: "codec_lib \<Rightarrow> bytes \<Rightarrow> (codec_error, v6Lease) gores" where
  "unmarshal_v6 C data =
     gbind (of_opt DecodeFailed (ungob_v6 C data)) (\<lambda>x.
     gbind (of_opt BadOptions (bytes_opts6 C (ex_ReplyOptionsBytes x))) (\<lambda>r.
     gbind (of_opt BadOptions (bytes_opts6 C (ex_IDOptionsBytes x))) (\<lambda>i.
     gbind (of_opt BadOptions (bytes_opts6 C (ex_RelayIDOptionsBytes x))) (\<lambda>ri.
       Ok \<lparr>MAC6 = ex_MAC x, ReplyOptions = r, LeaseType = ex_Type x, VLANList6 = ex_VLANList x,
           IDOptions6 = i, RelayIDOptions = ri\<rparr>))))"

section \<open>The file\<close>

text \<open>
  What \<open>gob\<close> does with one entry: it calls the lease's own methods, and leaves a nil
  pointer out.
\<close>

definition encode_opt :: "('a \<Rightarrow> (codec_error, bytes) gores) \<Rightarrow> 'a option
    \<Rightarrow> (codec_error, bytes option) gores" where
  "encode_opt f x = (case x of None \<Rightarrow> Ok None | Some v \<Rightarrow> gbind (f v) (\<lambda>b. Ok (Some b)))"

definition decode_opt :: "(bytes \<Rightarrow> (codec_error, 'a) gores) \<Rightarrow> bytes option
    \<Rightarrow> (codec_error, 'a option) gores" where
  "decode_opt f x = (case x of None \<Rightarrow> Ok None | Some b \<Rightarrow> gbind (f b) (\<lambda>v. Ok (Some v)))"

definition encode_stack :: "codec_lib \<Rightarrow> fullStackLease \<Rightarrow> (codec_error, stack_bytes) gores" where
  "encode_stack C fl =
     gbind (encode_opt (marshal_v4 C) (V4 fl)) (\<lambda>a.
     gbind (encode_opt (marshal_v6 C) (V6 fl)) (\<lambda>b. Ok \<lparr>sb_V4 = a, sb_V6 = b\<rparr>))"

definition decode_stack :: "codec_lib \<Rightarrow> stack_bytes \<Rightarrow> (codec_error, fullStackLease) gores" where
  "decode_stack C sb =
     gbind (decode_opt (unmarshal_v4 C) (sb_V4 sb)) (\<lambda>a.
     gbind (decode_opt (unmarshal_v6 C) (sb_V6 sb)) (\<lambda>b. Ok \<lparr>V4 = a, V6 = b\<rparr>))"

text \<open>
  Encoding a whole table works entry by entry, in the order \<open>ids\<close> in which Go happens to
  range over the map, and fails if one entry does; decoding stores the entries one by one.
\<close>

fun encode_entries :: "codec_lib \<Rightarrow> clientID list \<Rightarrow> leaseMap
    \<Rightarrow> (codec_error, (clientID \<times> stack_bytes) list) gores" where
  "encode_entries C [] m = Ok []"
| "encode_entries C (i # is) m =
     (case m i of
        None \<Rightarrow> encode_entries C is m
      | Some fl \<Rightarrow>
          gbind (encode_stack C fl) (\<lambda>sb.
          gbind (encode_entries C is m) (\<lambda>r. Ok ((i, sb) # r))))"

fun decode_entries :: "codec_lib \<Rightarrow> (clientID \<times> stack_bytes) list \<Rightarrow> leaseMap
    \<Rightarrow> (codec_error, leaseMap) gores" where
  "decode_entries C [] m = Ok m"
| "decode_entries C ((i, sb) # es) m =
     gbind (decode_stack C sb) (\<lambda>fl. decode_entries C es (m(i \<mapsto> fl)))"

text \<open>
  The end of \<open>saveLeaseToFiles\<close>: the bytes written. \<open>loadLeaseFromFile\<close>: \<open>file\<close>
  is what reading the file gives. A failure of the former, as well as of the latter in
  \<open>NewSched\<close>, ends the program.
\<close>

definition saveFile :: "codec_lib \<Rightarrow> clientID list \<Rightarrow> leaseMap \<Rightarrow> (codec_error, bytes) gores" where
  "saveFile C ids m = gbind (encode_entries C ids m) (\<lambda>r. of_opt EncodeFailed (gob_map C r))"

definition loadLeaseFromFile :: "codec_lib \<Rightarrow> bytes option \<Rightarrow> (codec_error, leaseMap) gores" where
  "loadLeaseFromFile C file =
     gbind (of_opt FileUnreadable file) (\<lambda>data.
     gbind (of_opt DecodeFailed (ungob_map C data)) (\<lambda>r. decode_entries C r Map.empty))"

section \<open>What the libraries promise\<close>

text \<open>
  Decoding gives back what was encoded: for the structs always, for packets and option lists when
  they are in the form the library parses to (the predicates below), as those a lease got from
  the network are.
\<close>

definition codec_law :: "codec_lib \<Rightarrow> bool" where
  "codec_law C \<longleftrightarrow>
     (\<forall>x b. gob_lease C x = Some b \<longrightarrow> ungob_lease C b = Some x)
     \<and> (\<forall>x b. gob_v4 C x = Some b \<longrightarrow> ungob_v4 C b = Some x)
     \<and> (\<forall>x b. gob_v6 C x = Some b \<longrightarrow> ungob_v6 C b = Some x)
     \<and> (\<forall>x b. gob_map C x = Some b \<longrightarrow> ungob_map C b = Some x)
     \<and> (\<forall>x b. vlans_bytes C x = Some b \<longrightarrow> bytes_vlans C b = Some x)"

definition parsed4 :: "codec_lib \<Rightarrow> v4Lease \<Rightarrow> bool" where
  "parsed4 C l \<longleftrightarrow>
     (case Lease4 l of
        None \<Rightarrow> False
      | Some ml \<Rightarrow> bytes_pkt C (pkt_bytes C (Offer ml)) = Some (Offer ml)
          \<and> bytes_pkt C (pkt_bytes C (ACK ml)) = Some (ACK ml))
     \<and> opts4_FromBytes C None (opts4_bytes C (IDOptions4 l)) = Ok (IDOptions4 l)"

definition parsed6 :: "codec_lib \<Rightarrow> v6Lease \<Rightarrow> bool" where
  "parsed6 C l \<longleftrightarrow>
     (\<forall>os \<in> {ReplyOptions l, IDOptions6 l, RelayIDOptions l}.
        bytes_opts6 C (opts6_bytes C os) = Some os)"

definition parsed_stack :: "codec_lib \<Rightarrow> fullStackLease \<Rightarrow> bool" where
  "parsed_stack C fl \<longleftrightarrow> pred_option (parsed4 C) (V4 fl) \<and> pred_option (parsed6 C) (V6 fl)"

section \<open>Lemmas: each encoder is undone\<close>

lemma codec_lawD:
  assumes "codec_law C"
  shows "gob_lease C x1 = Some b \<Longrightarrow> ungob_lease C b = Some x1"
    and "gob_v4 C x2 = Some b \<Longrightarrow> ungob_v4 C b = Some x2"
    and "gob_v6 C x3 = Some b \<Longrightarrow> ungob_v6 C b = Some x3"
    and "gob_map C x4 = Some b \<Longrightarrow> ungob_map C b = Some x4"
    and "vlans_bytes C x5 = Some b \<Longrightarrow> bytes_vlans C b = Some x5"
  using assms by (simp_all add: codec_law_def)

lemma of_opt_Some [simp]: "of_opt e (Some v) = Ok v"
  by (simp add: of_opt_def)

lemma marshal_myLease_undone:
  assumes "codec_law C" and "bytes_pkt C (pkt_bytes C (Offer l)) = Some (Offer l)"
    and "bytes_pkt C (pkt_bytes C (ACK l)) = Some (ACK l)" and "marshal_myLease C l = Ok b"
  shows "unmarshal_myLease C b = Ok l"
proof -
  from assms(4) have "ungob_lease C b = Some \<lparr>el_Offer = pkt_bytes C (Offer l),
      el_ACK = pkt_bytes C (ACK l), el_CreationTime = CreationTime l\<rparr>"
    by (intro codec_lawD(1) [OF assms(1)]) (simp add: marshal_myLease_def)
  with assms(2,3) show ?thesis by (simp add: unmarshal_myLease_def)
qed

lemma marshal_v4_undone:
  assumes "codec_law C" and "parsed4 C l" and "marshal_v4 C l = Ok b"
  shows "unmarshal_v4 C b = Ok l"
proof -
  from assms(2) obtain ml where ml: "Lease4 l = Some ml"
    "bytes_pkt C (pkt_bytes C (Offer ml)) = Some (Offer ml)"
    "bytes_pkt C (pkt_bytes C (ACK ml)) = Some (ACK ml)"
    "opts4_FromBytes C None (opts4_bytes C (IDOptions4 l)) = Ok (IDOptions4 l)"
    by (auto simp: parsed4_def split: option.splits)
  from assms(3) ml(1) obtain x v where x: "marshal_myLease C ml = Ok x"
    "vlans_bytes C (VLANList l) = Some v"
    "gob_v4 C \<lparr>ev_Lease = x, ev_VLANAList = v, ev_IDOptions = opts4_bytes C (IDOptions4 l)\<rparr> = Some b"
    by (auto simp: marshal_v4_def getExportV4Lease_def gbind_eq_Ok)
  show ?thesis
    using marshal_myLease_undone [OF assms(1) ml(2,3) x(1)] ml(1,4)
      codec_lawD(2) [OF assms(1) x(3)] codec_lawD(5) [OF assms(1) x(2)]
    by (simp add: unmarshal_v4_def setLease_def)
qed

lemma marshal_v6_undone:
  assumes "codec_law C" and "parsed6 C l" and "marshal_v6 C l = Ok b"
  shows "unmarshal_v6 C b = Ok l"
proof -
  from assms(3) have "ungob_v6 C b = Some
       \<lparr>ex_MAC = MAC6 l, ex_ReplyOptionsBytes = opts6_bytes C (ReplyOptions l),
        ex_Type = LeaseType l, ex_VLANList = VLANList6 l,
        ex_IDOptionsBytes = opts6_bytes C (IDOptions6 l),
        ex_RelayIDOptionsBytes = opts6_bytes C (RelayIDOptions l)\<rparr>"
    by (intro codec_lawD(3) [OF assms(1)]) (simp add: marshal_v6_def)
  with assms(2) show ?thesis by (simp add: unmarshal_v6_def parsed6_def)
qed

lemma encode_opt_undone:
  assumes "\<And>v b. P v \<Longrightarrow> f v = Ok b \<Longrightarrow> g b = Ok v" and "pred_option P x" and "encode_opt f x = Ok y"
  shows "decode_opt g y = Ok x"
  using assms by (cases x) (auto simp: encode_opt_def decode_opt_def gbind_eq_Ok)

lemma encode_stack_undone:
  assumes "codec_law C" and "parsed_stack C fl" and "encode_stack C fl = Ok sb"
  shows "decode_stack C sb = Ok fl"
proof -
  from assms(3) obtain a b where e: "encode_opt (marshal_v4 C) (V4 fl) = Ok a"
    "encode_opt (marshal_v6 C) (V6 fl) = Ok b" "sb = \<lparr>sb_V4 = a, sb_V6 = b\<rparr>"
    by (auto simp: encode_stack_def gbind_eq_Ok)
  have "decode_opt (unmarshal_v4 C) a = Ok (V4 fl)"
    using assms(2) by (intro encode_opt_undone [OF _ _ e(1), of "parsed4 C"] marshal_v4_undone [OF assms(1)])
      (simp_all add: parsed_stack_def)
  moreover have "decode_opt (unmarshal_v6 C) b = Ok (V6 fl)"
    using assms(2) by (intro encode_opt_undone [OF _ _ e(2), of "parsed6 C"] marshal_v6_undone [OF assms(1)])
      (simp_all add: parsed_stack_def)
  ultimately show ?thesis by (simp add: decode_stack_def e(3))
qed

lemma encode_entries_undone:
  assumes "codec_law C" and "\<forall>fl \<in> ran m. parsed_stack C fl" and "encode_entries C is m = Ok r"
  shows "decode_entries C r t = Ok (t ++ (m |` set is))"
  using assms(3)
proof (induction "is" arbitrary: r t)
  case (Cons i "is")
  have skip: "t ++ (m |` insert i (set is)) = (case m i of None \<Rightarrow> t | Some fl \<Rightarrow> t(i \<mapsto> fl)) ++ (m |` set is)"
    for t
    by (rule ext) (auto simp: map_add_def restrict_map_def split: option.splits)
  show ?case
  proof (cases "m i")
    case None
    with Cons skip [of t] show ?thesis by simp
  next
    case (Some fl)
    with Cons.prems obtain sb r' where e: "encode_stack C fl = Ok sb" "encode_entries C is m = Ok r'"
      "r = (i, sb) # r'" by (auto simp: gbind_eq_Ok)
    from Some assms(2) have "parsed_stack C fl" by (auto intro: ranI)
    with encode_stack_undone [OF assms(1) _ e(1)] Cons.IH [OF e(2)] show ?thesis
      by (simp add: e(3) skip Some fun_upd_def)
  qed
qed simp

lemma saveFile_loadLeaseFromFile:
  assumes "codec_law C" and "\<forall>fl \<in> ran m. parsed_stack C fl" and "dom m \<subseteq> set ids"
    and "saveFile C ids m = Ok data"
  shows "loadLeaseFromFile C (Some data) = Ok m"
proof -
  from assms(4) obtain r where r: "encode_entries C ids m = Ok r" "gob_map C r = Some data"
    by (auto simp: saveFile_def gbind_eq_Ok)
  have "m x = None" if "x \<notin> set ids" for x
    using assms(3) that by (cases "m x") auto
  then have "m |` set ids = m" by (intro ext) (simp add: restrict_map_def)
  with encode_entries_undone [OF assms(1,2) r(1), of Map.empty] show ?thesis
    by (simp add: loadLeaseFromFile_def codec_lawD(4) [OF assms(1) r(2)])
qed

section \<open>From the dial of one run to the clients of the next\<close>

text \<open>
  What \<open>NewSched\<close> makes of the result of \<open>loadLeaseFromFile\<close>: an error (and a
  panic) ends the program.
\<close>

definition loaded_leases :: "(codec_error, leaseMap) gores \<Rightarrow> leaseMap option" where
  "loaded_leases r = (case r of Ok m \<Rightarrow> Some m | _ \<Rightarrow> None)"

fun parsed_saved :: "codec_lib \<Rightarrow> saved \<Rightarrow> bool" where
  "parsed_saved C (Saved4 i l) = parsed4 C l"
| "parsed_saved C (Saved6 i l) = parsed6 C l"

lemma last4_in: "last4 i evs = Some l \<Longrightarrow> Saved4 i l \<in> set evs"
  by (induction evs) (auto split: option.splits saved.splits if_splits)

lemma last6_in: "last6 i evs = Some l \<Longrightarrow> Saved6 i l \<in> set evs"
  by (induction evs) (auto split: option.splits saved.splits if_splits)

lemma collected_entry:
  "entry4 (collect_leases evs) i = last4 i evs" "entry6 (collect_leases evs) i = last6 i evs"
proof -
  have "entry4 Map.empty i = None" "entry6 Map.empty i = None"
    by (simp_all add: entry4_def entry6_def)
  then show "entry4 (collect_leases evs) i = last4 i evs" "entry6 (collect_leases evs) i = last6 i evs"
    by (simp_all add: collect_leases_def fold_save_entry4 fold_save_entry6 split: option.splits)
qed

lemma collected_parsed:
  assumes "\<forall>e \<in> set evs. parsed_saved C e" and "fl \<in> ran (collect_leases evs)"
  shows "parsed_stack C fl"
proof -
  from assms(2) obtain i where i: "collect_leases evs i = Some fl" by (auto simp: ran_def)
  have e: "V4 fl = last4 i evs" "V6 fl = last6 i evs"
    using collected_entry [of evs i] i by (simp_all add: entry4_def entry6_def)
  have "pred_option (parsed4 C) (last4 i evs)"
    using last4_in [of i evs] assms(1) by (cases "last4 i evs") force+
  moreover have "pred_option (parsed6 C) (last6 i evs)"
    using last6_in [of i evs] assms(1) by (cases "last6 i evs") force+
  ultimately show ?thesis by (simp add: parsed_stack_def e)
qed

lemma entry_stored_dom:
  "i \<in> dom (fold save_step evs m) \<longleftrightarrow> i \<in> dom m \<or> last4 i evs \<noteq> None \<or> last6 i evs \<noteq> None"
proof (induction evs arbitrary: m)
  case (Cons e evs)
  then show ?case
    by (cases e) (auto simp: put_v4_def put_v6_def split: option.splits)
qed simp

lemma collected_dom:
  "i \<in> dom (collect_leases evs) \<longleftrightarrow> last4 i evs \<noteq> None \<or> last6 i evs \<noteq> None"
  by (simp add: collect_leases_def entry_stored_dom)

text \<open>The clients of a start that reads a written file.\<close>

lemma restart_table:
  assumes "codec_law C" and "\<forall>e \<in> set evs. parsed_saved C e"
    and "set ids = dom (collect_leases evs)"
    and "saveFile C ids (collect_leases evs) = Ok data" and "Action su \<noteq> actionDORA"
  shows "\<exists>s. NewSched NL R A L K key (loaded_leases (loadLeaseFromFile C (Some data))) su = Ok s
    \<and> dom (ClntList s) = {i. last4 i evs \<noteq> None \<or> last6 i evs \<noteq> None}
    \<and> (\<forall>i dc. ClntList s i = Some dc \<longrightarrow>
         dc_id dc = i \<and> d4Lease dc = last4 i evs \<and> d6Lease dc = last6 i evs)"
proof -
  let ?m = "collect_leases evs"
  have l: "loadLeaseFromFile C (Some data) = Ok ?m"
    using collected_parsed [OF assms(2)] assms(3)
    by (intro saveFile_loadLeaseFromFile [OF assms(1) _ _ assms(4)]) auto
  define s where "s = \<lparr>ClntList = (\<lambda>i. map_option (loaded_client i) (?m i)), nd_proxy = None,
    sched_setup = su\<rparr>"
  have "NewSched NL R A L K key (loaded_leases (loadLeaseFromFile C (Some data))) su = Ok s"
    using assms(5) by (simp add: NewSched_def l loaded_leases_def s_def)
  moreover have "dom (ClntList s) = {i. last4 i evs \<noteq> None \<or> last6 i evs \<noteq> None}"
    using collected_dom [of _ evs] by (auto simp: s_def dom_def)
  moreover have "dc_id dc = i \<and> d4Lease dc = last4 i evs \<and> d6Lease dc = last6 i evs"
    if "ClntList s i = Some dc" for i dc
  proof -
    from that obtain fl where "?m i = Some fl" "dc = loaded_client i fl" by (auto simp: s_def)
    then show ?thesis
      using collected_entry [of evs i] by (simp add: loaded_client_def entry4_def entry6_def)
  qed
  ultimately show ?thesis by blast
qed

text \<open>
  C10: the leases one run saved are the leases the clients of the next run work with. When the
  file could be written and is read back unchanged, a start for a release, renewal or rebinding
  has a client for exactly the identifiers under which a lease was received, each filed under its
  identifier with the last IPv4 and the last IPv6 lease of that client, byte for byte, whatever
  order the table was written in.
\<close>

theorem leases_survive_restart:
  assumes "codec_law C" and "\<forall>e \<in> set evs. parsed_saved C e"
    and "set ids = dom (collect_leases evs)"
    and "saveFile C ids (collect_leases evs) = Ok data" and "Action su \<noteq> actionDORA"
  shows "\<exists>s. NewSched NL R A L K key (loaded_leases (loadLeaseFromFile C (Some data))) su = Ok s
    \<and> dom (ClntList s) = {i. last4 i evs \<noteq> None \<or> last6 i evs \<noteq> None}
    \<and> (\<forall>i dc. ClntList s i = Some dc \<longrightarrow>
         dc_id dc = i \<and> d4Lease dc = last4 i evs \<and> d6Lease dc = last6 i evs)"
  by (rule restart_table [OF assms])

text \<open>Encoders that handle the values of one table.\<close>

definition example_v4lease :: v4Lease where
  "example_v4lease = newV4Lease\<lparr>Lease4 := Some example_lease4\<rparr>"

definition example_saves :: "saved list" where
  "example_saves = [Saved4 ''a'' example_v4lease, Saved4 ''b'' example_v4lease]"

definition example_elease :: exportLease where
  "example_elease = \<lparr>el_Offer = [1], el_ACK = [1], el_CreationTime = CreationTime example_lease4\<rparr>"

definition example_ev4 :: exportV4Lease where
  "example_ev4 = \<lparr>ev_Lease = [2], ev_VLANAList = [], ev_IDOptions = []\<rparr>"

definition example_stacks :: "(clientID \<times> stack_bytes) list" where
  "example_stacks = [(''b'', \<lparr>sb_V4 = Some [3], sb_V6 = None\<rparr>),
     (''a'', \<lparr>sb_V4 = Some [3], sb_V6 = None\<rparr>)]"

definition example_codec :: codec_lib where
  "example_codec =
     \<lparr>gob_lease = (\<lambda>x. if x = example_elease then Some [2] else None),
      ungob_lease = (\<lambda>b. if b = [2] then Some example_elease else None),
      gob_v4 = (\<lambda>x. if x = example_ev4 then Some [3] else None),
      ungob_v4 = (\<lambda>b. if b = [3] then Some example_ev4 else None),
      gob_v6 = (\<lambda>x. None), ungob_v6 = (\<lambda>b. None),
      gob_map = (\<lambda>x. if x = example_stacks then Some [4] else None),
      ungob_map = (\<lambda>b. if b = [4] then Some example_stacks else None),
      pkt_bytes = (\<lambda>p. [1]),
      bytes_pkt = (\<lambda>b. if b = [1] then Some (ACK example_lease4) else None),
      vlans_bytes = (\<lambda>v. if v = [] then Some [] else None),
      bytes_vlans = (\<lambda>b. if b = [] then Some [] else None),
      opts4_bytes = concat \<circ> map (\<lambda>(c, d). c # word_of_nat (length d) # d),
      opts4_FromBytes = (\<lambda>r b. if b = [] then Ok [] else if r = None then Panic else Fail BadOptions),
      opts6_bytes = (\<lambda>os. []), bytes_opts6 = (\<lambda>b. Some [])\<rparr>"

lemma example_codec_law: "codec_law example_codec"
  by (auto simp: codec_law_def example_codec_def split: if_splits)

theorem leases_survive_restart_witness:
  "\<exists>s dc. NewSched example_netlib example_ra example_api example_lib example_key_const example_key
       (loaded_leases (loadLeaseFromFile example_codec (Some [4])))
       (example_setup\<lparr>Action := actionRelease\<rparr>) = Ok s
     \<and> ClntList s ''a'' = Some dc \<and> d4Lease dc = Some example_v4lease"
proof -
  have p: "\<forall>e \<in> set example_saves. parsed_saved example_codec e" by code_simp
  have w: "saveFile example_codec [''b'', ''a''] (collect_leases example_saves) = Ok [4]" by code_simp
  have i: "set [''b'', ''a''] = dom (collect_leases example_saves)"
    unfolding set_eq_iff collected_dom by (auto simp: example_saves_def split: if_splits)
  have a: "Action (example_setup\<lparr>Action := actionRelease\<rparr>) \<noteq> actionDORA" by simp
  have l: "last4 ''a'' example_saves = Some example_v4lease"
    by (simp add: example_saves_def example_v4lease_def)
  from leases_survive_restart [OF example_codec_law p i w a, of example_netlib example_ra example_api
      example_lib example_key_const example_key]
  obtain s where s: "NewSched example_netlib example_ra example_api example_lib example_key_const
       example_key (loaded_leases (loadLeaseFromFile example_codec (Some [4])))
       (example_setup\<lparr>Action := actionRelease\<rparr>) = Ok s"
    "dom (ClntList s) = {i. last4 i example_saves \<noteq> None \<or> last6 i example_saves \<noteq> None}"
    "\<forall>i dc. ClntList s i = Some dc \<longrightarrow>
         dc_id dc = i \<and> d4Lease dc = last4 i example_saves \<and> d6Lease dc = last6 i example_saves"
    by blast
  from s(2) l have "''a'' \<in> dom (ClntList s)" by simp
  then obtain dc where "ClntList s ''a'' = Some dc" by blast
  with s l show ?thesis by auto
qed

end
