(* ===== verification/Output.thy ===== *)
theory Output
  imports Summary
begin

text \<open>
  What the program prints about a run: the text of a summary (\<open>resultSummary.String\<close>,
  \<open>dhcplt.go\<close>), of an action (\<open>sched.go\<close>), the report of \<open>run\<close>, and the messages of
  \<open>common.MyLog\<close>.
\<close>

section \<open>Durations as text\<close>

text \<open>
  \<open>time.Duration.String\<close> fills a buffer from its end: the digits of the fraction but for trailing
  zeros, then those of the whole part. \<open>fmtFrac\<close> returns the buffer and the value left.
\<close>

fun fmtFrac :: "nat \<Rightarrow> nat \<Rightarrow> bool \<Rightarrow> string \<Rightarrow> string \<times> nat" where
  "fmtFrac v 0 pr buf = (if pr then CHR ''.'' # buf else buf, v)"
| "fmtFrac v (Suc p) pr buf =
     (let d = v mod 10; pr = (pr \<or> d \<noteq> 0)
      in fmtFrac (v div 10) p pr (if pr then digit d # buf else buf))"

definition fmtInt :: "nat \<Rightarrow> string \<Rightarrow> string" where
  "fmtInt v buf = itoa_nat v @ buf"

definition small_duration :: "nat \<Rightarrow> string" where
  "small_duration u =
     (if u = 0 then ''0s''
      else let (p, unit) = (if u < 1000 then (0, ''ns'')
                            else if u < 1000000 then (3, [CHR 0xC2, CHR 0xB5] @ ''s'')
                            else (6, ''ms''));
               (buf, v) = fmtFrac u p False unit
           in fmtInt v buf)"

definition large_duration :: "nat \<Rightarrow> string" where
  "large_duration u =
     (let (buf, v) = fmtFrac u 9 False ''s'';
          buf = fmtInt (v mod 60) buf; v = v div 60
      in if v = 0 then buf
         else let buf = fmtInt (v mod 60) (CHR ''m'' # buf); v = v div 60
              in if v = 0 then buf else fmtInt v (CHR ''h'' # buf))"

definition Duration_String :: "int \<Rightarrow> string" where
  "Duration_String d =
     (let u = nat \<bar>d\<bar>; s = (if u < 1000000000 then small_duration u else large_duration u)
      in if d < 0 then CHR ''-'' # s else s)"

lemma fmtFrac_numeral:
  "fmtFrac v (numeral k) pr buf =
     (let d = v mod 10; pr = (pr \<or> d \<noteq> 0)
      in fmtFrac (v div 10) (pred_numeral k) pr (if pr then digit d # buf else buf))"
  by (subst numeral_eq_Suc [of k]) (rule fmtFrac.simps(2))

lemma digit_texts:
  "digit 0 = CHR ''0''" "digit 1 = CHR ''1''" "digit 5 = CHR ''5''"
  "itoa_nat 0 = ''0''" "itoa_nat (Suc 0) = ''1''" "itoa_nat 30 = ''30''"
  by code_simp+

lemma duration_texts:
  "Duration_String 0 = ''0s''" "Duration_String 1500000 = ''1.5ms''"
  "Duration_String 1000000000 = ''1s''" "Duration_String (- 90500000000) = ''-1m30.5s''"
  "Duration_String 3600000000001 = ''1h0m0.000000001s''"
  by (simp_all add: Duration_String_def small_duration_def large_duration_def fmtInt_def
      fmtFrac_numeral digit_texts digit_texts(1,2) [simplified])

section \<open>The summary as text\<close>

abbreviation nl :: string where
  "nl \<equiv> [CHR 0x0A]"

text \<open>
  The floating-point quotient of successful dials and seconds, as it is printed, and the moving
  average as a duration are parameters; \<open>Interval\<close> is the setup's.
\<close>

definition resultSummary_String :: "(int \<Rightarrow> int \<Rightarrow> string) \<Rightarrow> ('mv \<Rightarrow> int) \<Rightarrow> testSetup
    \<Rightarrow> 'mv resultSummary \<Rightarrow> string" where
  "resultSummary_String rate avg su rs =
     ''Result Summary'' @ nl
     @ ''total trans: '' @ itoa (Total rs) @ nl
     @ ''Success dial:'' @ itoa (Success rs) @ nl
     @ ''Success release:'' @ itoa (Released rs) @ nl
     @ ''Success renew:'' @ itoa (Renewed rs) @ nl
     @ ''Success rebind:'' @ itoa (Rebinded rs) @ nl
     @ ''Failed trans:'' @ itoa (Failed rs) @ nl
     @ ''Duration:'' @ Duration_String (TotalTime rs) @ nl
     @ ''Interval:'' @ Duration_String (Interval su) @ nl
     @ ''Setup rate:'' @ rate (Success rs) (TotalTime rs) @ nl
     @ ''Fastest dial success:'' @ Duration_String (Shortest rs) @ nl
     @ ''dial Success within a second:'' @ itoa (LessThanSecond rs) @ nl
     @ ''Slowest dial success:'' @ Duration_String (Longest rs) @ nl
     @ ''Avg dial success time:'' @ Duration_String (avg (AvgSuccessTime rs)) @ nl"

text \<open>\<open>err.Error()\<close> of the failed \<open>MarshalText\<close> is its own format.\<close>

definition actionType_String :: "actionType \<Rightarrow> string" where
  "actionType_String act =
     (case action_MarshalText act of
        Ok buf \<Rightarrow> buf
      | _ \<Rightarrow> ''unkown action '' @ itoa (action_num act))"

text \<open>The report of \<open>run\<close> when its clients have ended; an unknown action ends the program.\<close>

definition run_report :: "actionType \<Rightarrow> string \<Rightarrow> string option" where
  "run_report act summary_text =
     (case act of
        actionDORA \<Rightarrow> Some (nl @ ''initial dialing resutls are:'' @ nl @ summary_text)
      | actionOther _ \<Rightarrow> None
      | _ \<Rightarrow> Some (nl @ actionType_String act @ '' resutls are:'' @ nl @ summary_text))"

section \<open>Log messages\<close>

text \<open>\<open>filepath.Base\<close>: the last element of a path, without trailing slashes.\<close>

definition path_base :: "string \<Rightarrow> string" where
  "path_base p =
     (if p = [] then ''.''
      else let q = dropWhile (\<lambda>c. c = CHR ''/'') (rev p)
           in if q = [] then ''/'' else rev (takeWhile (\<lambda>c. c \<noteq> CHR ''/'') q))"

text \<open>
  \<open>MyLog\<close>, given the formatted message and the caller's place: nothing is printed while the logger
  is nil.
\<close>

definition MyLog :: "bool \<Rightarrow> string \<times> int \<Rightarrow> string \<Rightarrow> string list" where
  "MyLog logger caller msg =
     (if \<not> logger then []
      else [path_base (fst caller) @ '':'' @ itoa (snd caller) @ '':'' @ msg])"

text \<open>What a reader of the report sees of the number of transactions.\<close>

lemma report_total:
  "\<exists>rest. run_report actionDORA (resultSummary_String rate avg su rs)
     = Some (nl @ ''initial dialing resutls are:'' @ nl @ ''Result Summary'' @ nl
         @ ''total trans: '' @ itoa (Total rs) @ nl @ rest)"
  by (simp add: run_report_def resultSummary_String_def)

end
