(* ===== verification/Program.thy ===== *)
theory Program
  imports Typing LeaseFile Output
begin

text \<open>
  The start of the program (\<open>main\<close> in \<open>dhcplt.go\<close>): the configuration is validated, the
  scheduler made from it, and run; what that means for a dial run from the configuration to the
  summary.
\<close>

section \<open>The start of \<open>main\<close>\<close>

text \<open>
  Both errors end the program; \<open>files\<close> gives the content of a file. Reading the
  configuration, profiling, the logger and the signals are left out.
\<close>

datatype start_error = InvalidSetup conf_error | SchedFailed sched_error

record surroundings =
  m_v6 :: v6api
  m_env :: env
  m_net :: netlib
  m_ra :: ra_world
  m_addr :: addr_lib
  m_const :: key_const
  m_key :: "econn \<Rightarrow> bytes"
  m_codec :: codec_lib
  m_files :: "string \<Rightarrow> bytes option"

definition main_start :: "surroundings \<Rightarrow> testSetup \<Rightarrow> (start_error, testSetup \<times> Sched) gores" where
  "main_start M cnf =
     (case init (m_v6 M) (m_env M) cnf of
        Fail e \<Rightarrow> Fail (InvalidSetup e)
      | Panic \<Rightarrow> Panic
      | Ok su \<Rightarrow>
          (case NewSched (m_net M) (m_ra M) (m_v6 M) (m_addr M) (m_const M) (m_key M)
              (loaded_leases (loadLeaseFromFile (m_codec M) (m_files M (LeaseFile su)))) su of
             Fail e \<Rightarrow> Fail (SchedFailed e)
           | Panic \<Rightarrow> Panic
           | Ok s \<Rightarrow> Ok (su, s)))"

text \<open>
  The same with what \<open>main\<close> does about an error: how the program ends (its exit status, a panic is
  status 2), or that it goes on to \<open>run\<close>, and the errors it reports; the texts of the errors and the
  place of the call of \<open>MyLog\<close> are parameters. \<open>log.Fatal\<close> inside \<open>NewSched\<close> has logged its own
  line and status 1. Notices that are no errors (a missing relay address in \<open>init\<close>, the number of
  leases loaded in \<open>NewSched\<close>) and the profiling server are left out.
\<close>

datatype ending = Exits nat | Runs testSetup Sched

definition main_prog :: "(conf_error \<Rightarrow> string) \<Rightarrow> (sched_error \<Rightarrow> string) \<Rightarrow> string \<times> int
    \<Rightarrow> surroundings \<Rightarrow> testSetup \<Rightarrow> string list \<times> ending" where
  "main_prog conf_text sched_text caller M cnf =
     (case init (m_v6 M) (m_env M) cnf of
        Fail e \<Rightarrow> ([''invalid setup, '' @ conf_text e], Exits 1)
      | Panic \<Rightarrow> ([], Exits 2)
      | Ok su \<Rightarrow>
          (case NewSched (m_net M) (m_ra M) (m_v6 M) (m_addr M) (m_const M) (m_key M)
              (loaded_leases (loadLeaseFromFile (m_codec M) (m_files M (LeaseFile su)))) su of
             Fail e \<Rightarrow>
               if e = FatalExit then ([sched_text e], Exits 1)
               else (MyLog (Debug su) caller (''failed to create sched, '' @ sched_text e), Exits 0)
           | Panic \<Rightarrow> ([], Exits 2)
           | Ok s \<Rightarrow> ([], Runs su s)))"

text \<open>
  The end of \<open>main\<close>, once \<open>run\<close> has returned: with profiling it waits on a channel nobody sends to
  (\<open>None\<close>).
\<close>

definition main_end :: "testSetup \<Rightarrow> string list option" where
  "main_end su = (if Profiling su then None else Some [''done.''])"

section \<open>Lemmas\<close>

lemma main_start_Ok:
  assumes "main_start M cnf = Ok (su, s)"
  shows "init (m_v6 M) (m_env M) cnf = Ok su"
    "NewSched (m_net M) (m_ra M) (m_v6 M) (m_addr M) (m_const M) (m_key M)
       (loaded_leases (loadLeaseFromFile (m_codec M) (m_files M (LeaseFile su)))) su = Ok s"
  using assms by (auto simp: main_start_def split: gores.splits)

lemma init_save_consistent:
  assumes "init A E cnf = Ok su" and "Action cnf = actionDORA"
    and "saveV4Chan cnf = None" "saveV6Chan cnf = None"
  shows "save_consistent su" "Action su = actionDORA" "EnableV4 su \<or> EnableV6 su"
    "NumOfClients su = NumOfClients cnf" "MacStep su = MacStep cnf"
    "EnableV4 su = EnableV4 cnf" "EnableV6 su = EnableV6 cnf"
proof -
  from assms(1) obtain hw r where c: "conf_acceptable E cnf" "su = conf_result A cnf hw r"
    by (auto simp: init_Ok_iff)
  show a: "Action su = actionDORA"
    using assms(2) by (simp add: c(2) conf_result_def init_savechans_def)
  show "save_consistent su"
    using assms(2-4) a
    by (auto simp: save_consistent_def has_chan_def c(2) conf_result_def init_savechans_def
        saveChanDepth_def split: if_splits)
  show "EnableV4 su \<or> EnableV6 su" using c(1) by (simp add: c(2) conf_acceptable_def)
  show "NumOfClients su = NumOfClients cnf" "MacStep su = MacStep cnf"
    "EnableV4 su = EnableV4 cnf" "EnableV6 su = EnableV6 cnf"
    by (simp_all add: c(2))
qed

lemma card_ran:
  assumes "\<And>i x. m i = Some x \<Longrightarrow> f x = i"
  shows "card (ran m) = card (dom m)"
proof -
  have "ran m = (\<lambda>i. the (m i)) ` dom m" by (force simp: ran_def dom_def)
  moreover have "inj_on (\<lambda>i. the (m i)) (dom m)"
    by (rule inj_onI) (metis assms domD option.sel)
  ultimately show ?thesis by (simp add: card_image)
qed

lemma table_filter:
  assumes "\<forall>dc \<in> set dcs. P dc = b"
  shows "length (filter P dcs) = (if b then length dcs else 0)"
  using assms by (induction dcs) auto

lemma init_Debug:
  assumes "init A E cnf = Ok su"
  shows "Debug su = Debug cnf"
  using assms by (auto simp: init_Ok_iff)

section \<open>How the program ends\<close>


section \<open>From the configuration to the summary\<close>

text \<open>
  C5: from the configuration to the summary: when a configuration for dialling passes validation
  and the scheduler is made, the run of its clients against a server of well-typed answers never
  panics and never gets stuck, whatever the order of its goroutines, and once it has ended the summary counts exactly one transaction per
  configured client and enabled protocol.
\<close>

theorem program_dials_every_client:
  assumes "main_start M cnf = Ok (su, s)" and "Action cnf = actionDORA"
    and "saveV4Chan cnf = None" "saveV6Chan cnf = None"
    and "mac_law (m_addr M)" and "key_law (m_const M) (m_key M)"
    and "length (StartMAC su) = 6" and "MacStep cnf \<noteq> 0"
    and "distinct dcs" and "set dcs = ran (ClntList s)"
    and "\<forall>dc \<in> set dcs. typed_world (m_const M) (m_key M) su (W dc)"
    and "sys_step\<^sup>*\<^sup>* (start_sys su (dora_runs W su dcs)) t"
  shows "\<not> crashed t \<and> (main_at t = MDone \<or> (\<exists>u. sys_step t u))
    \<and> (main_at t = MDone \<longrightarrow>
         Total (summary (collectResults f (collected t) (start_collector avg far)))
           = int (nat (sint (NumOfClients cnf))
               * ((if EnableV4 cnf then 1 else 0) + (if EnableV6 cnf then 1 else 0))))"
proof -
  note m = main_start_Ok [OF assms(1)]
  note i = init_save_consistent [OF m(1) assms(2-4)]
  have "MacStep su \<noteq> 0" using assms(8) i(5) by simp
  note t = NewSched_table [OF m(2) i(2) assms(5-7) this i(3)]
  have "card (ran (ClntList s)) = card (dom (ClntList s))"
    by (rule card_ran [of _ dc_id]) (use t in blast)
  then have len: "length dcs = num_clients su"
    using t distinct_card [OF assms(9)] assms(10) by simp
  have "(d4 dc \<noteq> None) = EnableV4 su \<and> (d6 dc \<noteq> None) = EnableV6 su" if "dc \<in> set dcs" for dc
  proof -
    from that assms(10) obtain i where "ClntList s i = Some dc" by (auto simp: ran_def)
    then show ?thesis using t by blast
  qed
  then have n: "length (filter (\<lambda>dc. d4 dc \<noteq> None) dcs) = (if EnableV4 su then length dcs else 0)"
    "length (filter (\<lambda>dc. d6 dc \<noteq> None) dcs) = (if EnableV6 su then length dcs else 0)"
    by (intro table_filter; blast)+
  have calm: "\<forall>dc \<in> set dcs. calm W su dc"
    using dial_calm NewSched_wired [OF m(2) i(2) assms(5-7)] assms(10,11) by metis
  note ok = dora_runs_ok [OF i(1) calm]
  have "\<not> crashed t \<and> (main_at t = MDone \<or> (\<exists>u. sys_step t u))"
    using sched_reach [OF ok assms(12)] sched_step_or_done [OF ok assms(12)]
    by (simp add: sched_inv_def)
  moreover have "Total (summary (collectResults f (collected t) (start_collector avg far)))
      = int (nat (sint (NumOfClients cnf))
          * ((if EnableV4 cnf then 1 else 0) + (if EnableV6 cnf then 1 else 0)))"
    if "main_at t = MDone"
    using conjunct2 [OF dora_collected [OF i(1) calm assms(12) that, of f avg far]]
    unfolding n len num_clients_def i(4,6,7) by simp
  ultimately show ?thesis by blast
qed

text \<open>The table of a fresh start with one client.\<close>

lemma fresh_table:
  assumes "NewSched NL R A L K key loaded su = Ok s" and "Action su = actionDORA"
    and "dcs = map (\<lambda>c. the_ok (new_client NL R K key su c)) (the_ok (genClientConfigurations A L su))"
    and "length dcs = Suc 0"
  shows "ran (ClntList s) = set dcs"
proof -
  from NewSched_DORA [OF assms(1,2)]
  obtain cfgs ds where g: "genClientConfigurations A L su = Ok cfgs"
    and n: "list_all2 (\<lambda>c dc. new_client NL R K key su c = Ok dc) cfgs ds"
    and t: "ClntList s = table_of ds Map.empty"
    by auto
  from n have "ds = map (\<lambda>c. the_ok (new_client NL R K key su c)) cfgs"
    by (induction rule: list_all2_induct) auto
  then have "ds = dcs" by (simp add: g assms(3))
  moreover from assms(4) obtain dc where "dcs = [dc]" by (auto simp: length_Suc_conv)
  ultimately show ?thesis unfolding t by (simp add: table_of_def)
qed

text \<open>One client with both protocols, from its configuration to the end of its run.\<close>

definition example_surroundings :: surroundings where
  "example_surroundings = \<lparr>m_v6 = example_api, m_env = example_env, m_net = example_netlib,
     m_ra = example_ra, m_addr = example_lib, m_const = example_key_const, m_key = example_key,
     m_codec = example_codec, m_files = (\<lambda>_. None)\<rparr>"

definition example_cnf :: testSetup where
  "example_cnf = example_conf\<lparr>NumOfClients := 1, SaveLease := False\<rparr>"

text \<open>A machine on which no UDP connection can be made: no error is reported, and the status is 0.\<close>

lemma example_silent:
  "main_prog (\<lambda>_. ''conf'') (\<lambda>_. ''sched'') (''/src/dhcplt.go'', 176)
     (example_surroundings\<lparr>m_net := example_netlib\<lparr>NewRUDPConn_ok := (\<lambda>_. False)\<rparr>\<rparr>) example_cnf
   = ([], Exits 0)"
proof -
  have "case main_start (example_surroundings\<lparr>m_net := example_netlib\<lparr>NewRUDPConn_ok := (\<lambda>_. False)\<rparr>\<rparr>)
      example_cnf of Fail (SchedFailed e) \<Rightarrow> e = RudpFailed | _ \<Rightarrow> False"
    "\<not> Debug example_cnf"
    by code_simp+
  then show ?thesis
    by (auto simp: main_start_def main_prog_def MyLog_def dest: init_Debug
        split: gores.splits start_error.splits)
qed

definition example_started :: "testSetup \<times> Sched" where
  "example_started = the_ok (main_start example_surroundings example_cnf)"

definition example_client :: "clientConfig \<Rightarrow> (sched_error, DClient) gores" where
  "example_client = new_client example_netlib example_ra example_key_const example_key (fst example_started)"

definition example_dcs :: "DClient list" where
  "example_dcs = map (\<lambda>c. the_ok (example_client c))
     (the_ok (genClientConfigurations example_api example_lib (fst example_started)))"

lemma example_started:
  "main_start example_surroundings example_cnf = Ok (fst example_started, snd example_started)"
proof -
  have "is_Ok (main_start example_surroundings example_cnf)" by code_simp
  then show ?thesis by (simp add: example_started_def)
qed

lemma example_one_client: "\<exists>dc. example_dcs = [dc]"
proof -
  have "length example_dcs = Suc 0" by code_simp
  then show ?thesis by (simp add: length_Suc_conv)
qed

lemma example_dcs_table: "ran (ClntList (snd example_started)) = set example_dcs"
proof -
  have a: "Action (fst example_started) = actionDORA" "length example_dcs = Suc 0" by code_simp+
  from fresh_table [OF main_start_Ok(2) [OF example_started] a(1), of example_dcs] a(2)
  show ?thesis by (simp add: example_surroundings_def example_dcs_def example_client_def)
qed

definition example_program_moves :: "move list" where
  "example_program_moves = [StartClient, Spawn 0, Spawn 0] @ replicate 6 (Act 0 0) @ replicate 6 (Act 0 1)
     @ [AllStarted, ClientDone 0, MainNext, MainNext, Collect, Collect, Collect, MainNext]"

definition example_program_start :: sys where
  "example_program_start = start_sys (fst example_started)
     (dora_runs (\<lambda>_. typed_example_world) (fst example_started) example_dcs)"

definition example_program_end :: sys where
  "example_program_end = the (run_moves example_program_moves example_program_start)"

theorem program_dials_every_client_witness:
  "Total (summary (collectResults (\<lambda>a t. a) (collected example_program_end) (start_collector () 99))) = 2"
proof -
  have c: "Action example_cnf = actionDORA" "saveV4Chan example_cnf = None" "saveV6Chan example_cnf = None"
    "length (StartMAC (fst example_started)) = 6" "MacStep example_cnf \<noteq> 0"
    "nat (sint (NumOfClients example_cnf)) = 1" "EnableV4 example_cnf" "EnableV6 example_cnf"
    by code_simp+
  have l: "mac_law (m_addr example_surroundings)"
    "key_law (m_const example_surroundings) (m_key example_surroundings)"
    using example_mac_law example_key_law by (simp_all add: example_surroundings_def)
  have d: "distinct example_dcs" using example_one_client distinct_singleton by metis
  have "\<not> NeedPD (fst example_started)" by code_simp
  then have k: "\<forall>dc \<in> set example_dcs. typed_world (m_const example_surroundings)
      (m_key example_surroundings) (fst example_started) typed_example_world"
    using typed_example by (simp add: example_surroundings_def)
  have "\<not> Option.is_none (run_moves example_program_moves example_program_start)" by code_simp
  then have "run_moves example_program_moves example_program_start = Some example_program_end"
    by (auto simp: Option.is_none_def example_program_end_def)
  note r = run_moves_reach [OF this, unfolded example_program_start_def]
  have "main_at example_program_end = MDone" by code_simp
  with program_dials_every_client [OF example_started c(1-3) l c(4,5) d example_dcs_table [symmetric] k r,
      of "\<lambda>a t. a" "()" 99] c(6-8)
  show ?thesis by simp
qed

end
