(* ===== verification/FlapSafe.thy ===== *)
theory FlapSafe
  imports FlapRun Program
begin

text \<open>
  When flapping is safe: from the clients of a fresh start to the flapping loop, if every client got
  its leases in the first dial, the interval is not empty and the server's answers are well typed,
  no order of the goroutines' moves makes the program panic.
\<close>

section \<open>Clients that can flap\<close>

text \<open>Wired for dialling, and with the DHCP client that a release of its leases needs.\<close>

definition flappable :: "key_const \<Rightarrow> (econn \<Rightarrow> bytes) \<Rightarrow> testSetup \<Rightarrow> DClient \<Rightarrow> bool" where
  "flappable K key su dc \<longleftrightarrow>
     client_wired K key su dc
     \<and> (d4 dc \<noteq> None \<or> d4Lease dc \<noteq> None \<longrightarrow> d4OtherClnt dc \<noteq> None)
     \<and> (d6 dc \<noteq> None \<or> d6Lease dc \<noteq> None \<longrightarrow> d6OtherClnt dc \<noteq> None)
     \<and> (\<forall>l. d4Lease dc = Some l \<longrightarrow> Lease4 l \<noteq> None)"

lemma dialv4_lease:
  assumes "d4Lease (fst (dialv4 W su dc)) = Some l"
  shows "d4Lease dc = Some l \<or> Lease4 l \<noteq> None"
  using assms
  by (auto simp: dialv4_def dialv4_body_def Let_def split: option.splits prod.splits)

lemma redialed_sel [simp]:
  "d4 (redialed W su dc) = d4 dc" "d6 (redialed W su dc) = d6 dc" "cfg (redialed W su dc) = cfg dc"
  "d4OtherClnt (redialed W su dc) = d4OtherClnt dc" "d6OtherClnt (redialed W su dc) = d6OtherClnt dc"
  by (simp_all add: redialed_def)

lemma wired_cong:
  "d4 dc' = d4 dc \<Longrightarrow> d6 dc' = d6 dc \<Longrightarrow> cfg dc' = cfg dc
    \<Longrightarrow> client_wired K key su dc' = client_wired K key su dc"
  by (simp add: client_wired_def)

lemma redialed_lease4:
  assumes "d4Lease (redialed W su dc) = Some l" and "\<forall>l. d4Lease dc = Some l \<longrightarrow> Lease4 l \<noteq> None"
  shows "Lease4 l \<noteq> None"
  using assms dialv4_lease [of W su dc l] by (auto simp: redialed_def split: if_splits)

lemma redialed_flappable:
  assumes "flappable K key su dc"
  shows "flappable K key su (redialed W su dc)"
proof -
  have "client_wired K key su (redialed W su dc)"
    using assms wired_cong [of "redialed W su dc" dc] by (simp add: flappable_def)
  moreover have "d4Lease (redialed W su dc) \<noteq> None \<longrightarrow> d4 dc \<noteq> None \<or> d4Lease dc \<noteq> None"
    "d6Lease (redialed W su dc) \<noteq> None \<longrightarrow> d6 dc \<noteq> None \<or> d6Lease dc \<noteq> None"
    by (simp_all add: redialed_def)
  moreover have "\<forall>l. d4Lease (redialed W su dc) = Some l \<longrightarrow> Lease4 l \<noteq> None"
    using assms redialed_lease4 by (auto simp: flappable_def)
  ultimately show ?thesis using assms by (auto simp: flappable_def)
qed

lemma release4_safe:
  "flappable K key su dc \<Longrightarrow> snd (snd (releasev4 W wg dc)) \<noteq> Panic"
  by (auto simp: flappable_def releasev4_def split: option.split prod.split)

lemma release6_safe:
  "flappable K key su dc \<Longrightarrow> snd (snd (releaseOrRenewV6 W wg mt dc)) \<noteq> Panic"
  by (auto simp: flappable_def releaseOrRenewV6_def Genv6Release_def Let_def
      split: option.split prod.split gores.split)

section \<open>Flapping against a well-typed server\<close>

definition calm_script :: "script \<Rightarrow> bool" where
  "calm_script sc \<longleftrightarrow> Crash \<notin> set sc"

lemma script_of_no_crash: "snd (snd p) \<noteq> Panic \<Longrightarrow> calm_script (script_of p)"
  by (auto simp: calm_script_def script_of_def split: prod.split)

inductive typed_flap :: "key_const \<Rightarrow> (econn \<Rightarrow> bytes) \<Rightarrow> testSetup \<Rightarrow> FlappingConf \<Rightarrow> fsys \<Rightarrow> fsys \<Rightarrow> bool"
  for K key su f where
  move: "\<not> f_crashed s \<Longrightarrow> flap_move su f m s = Some t
    \<Longrightarrow> (\<And>i W rnd. m = Turn i W rnd \<Longrightarrow> typed_world K key su W) \<Longrightarrow> typed_flap K key su f s t"

inductive_cases typed_flapE: "typed_flap K key su f s t"

definition open_chan :: "saved gochan option \<Rightarrow> bool" where
  "open_chan ch \<longleftrightarrow> (\<forall>q. ch = Some q \<longrightarrow> \<not> cclosed q)"

definition flap_client_ok :: "key_const \<Rightarrow> (econn \<Rightarrow> bytes) \<Rightarrow> testSetup \<Rightarrow> fclient \<Rightarrow> bool" where
  "flap_client_ok K key su c \<longleftrightarrow>
     flappable K key su (f_dc c) \<and> (\<forall>sc \<in> set (f_live c). calm_script sc)"

definition flap_safe_inv :: "key_const \<Rightarrow> (econn \<Rightarrow> bytes) \<Rightarrow> testSetup \<Rightarrow> fsys \<Rightarrow> bool" where
  "flap_safe_inv K key su s \<longleftrightarrow>
     \<not> f_crashed s \<and> \<not> cclosed (f_rchan s) \<and> open_chan (f_s4 s) \<and> open_chan (f_s6 s)
     \<and> (\<forall>c \<in> set (f_clients s). flap_client_ok K key su c)"

lemma dialAll_calm:
  assumes "typed_world K key su W" and "flappable K key su dc"
  shows "\<forall>sc \<in> set (cr_scripts (dialAll W su dc)). calm_script sc"
proof -
  have "calm (\<lambda>_. W) su dc"
    using dial_calm [of K key su "\<lambda>_. W" dc] assms by (simp add: flappable_def)
  then show ?thesis
    by (auto simp: calm_def dialAll_def ordered_def intro: script_of_no_crash)
qed

lemma flap_turn_safe:
  assumes "typed_world K key su W" and "flap_client_ok K key su c"
    and "0 < wrap64 (MaxInterval f - MinInterval f)"
  shows "\<exists>c'. flap_turn W su rnd f done c = Ok c' \<and> flap_client_ok K key su c'"
proof -
  have fl: "flappable K key su (f_dc c)" using assms(2) by (simp add: flap_client_ok_def)
  note rel = script_of_no_crash [OF release4_safe [OF fl]] script_of_no_crash [OF release6_safe [OF fl]]
  have "\<exists>x. flap_sleep rnd f = Ok x" using assms(3) by (simp add: flap_sleep_def Let_def)
  then show ?thesis
    using assms(2) rel dialAll_calm [OF assms(1) fl] redialed_flappable [OF fl]
    by (cases "f_pc c") (auto simp: flap_turn_def flap_client_ok_def)
qed

lemma open_chan_send:
  "open_chan (Some c) \<Longrightarrow> chan_send c x = Sent c' \<Longrightarrow> open_chan (Some c')"
  by (auto simp: open_chan_def dest: chan_send_SentD)

lemma do_flap_ev_safe:
  assumes "do_flap_ev e s = Some t" and "flap_safe_inv K key su s"
  shows "flap_safe_inv K key su t"
proof -
  have "f_clients t = f_clients s" using do_flap_ev_clients [OF assms(1)] by simp
  moreover have "\<not> f_crashed t \<and> \<not> cclosed (f_rchan t) \<and> open_chan (f_s4 t) \<and> open_chan (f_s6 t)"
    using assms
    by (cases "(e, s)" rule: do_flap_ev.cases)
      (auto simp: flap_safe_inv_def send_or_def open_chan_def chan_send_Sent_iff open_send
        split: option.splits sendres.splits)
  ultimately show ?thesis using assms(2) by (simp add: flap_safe_inv_def)
qed

lemma set_client_safe:
  assumes "flap_safe_inv K key su s" and "flap_client_ok K key su c"
  shows "flap_safe_inv K key su (set_client i c s)"
  using assms set_update_subset_insert [of "f_clients s" i c] by (auto simp: flap_safe_inv_def)

lemma flap_act_safe:
  assumes "flap_move su f (FAct i j) s = Some t" and "flap_safe_inv K key su s"
  shows "flap_safe_inv K key su t"
proof -
  from assms(1) obtain a es where a: "i < length (f_clients s)"
    "j < length (f_live (f_clients s ! i))" "f_live (f_clients s ! i) ! j = a # es"
    "case a of Crash \<Rightarrow> t = s\<lparr>f_crashed := True\<rparr>
       | Do e \<Rightarrow> do_flap_ev e (set_client i (popped_client j es (f_clients s ! i)) s) = Some t"
    by (rule flap_act_move)
  have m: "f_clients s ! i \<in> set (f_clients s)" using a(1) by simp
  then have c: "flap_client_ok K key su (f_clients s ! i)"
    using assms(2) by (simp add: flap_safe_inv_def)
  have "a # es \<in> set (f_live (f_clients s ! i))" using a(2,3) by (metis nth_mem)
  then have s: "calm_script (a # es)" using c by (simp add: flap_client_ok_def)
  then obtain e where e: "a = Do e" by (cases a) (auto simp: calm_script_def)
  have "calm_script es" using s by (simp add: calm_script_def)
  then have "flap_client_ok K key su (popped_client j es (f_clients s ! i))"
    using c set_update_subset_insert [of "f_live (f_clients s ! i)" j es]
    by (auto simp: flap_client_ok_def)
  from do_flap_ev_safe [OF _ set_client_safe [OF assms(2) this]] a(4) e show ?thesis by simp
qed

lemma typed_flap_safe:
  assumes "typed_flap K key su f s t" and "flap_safe_inv K key su s"
    and "0 < wrap64 (MaxInterval f - MinInterval f)"
  shows "flap_safe_inv K key su t"
  using assms(1)
proof (rule typed_flapE)
  fix m
  assume m: "flap_move su f m s = Some t"
    and w: "\<And>i W rnd. m = Turn i W rnd \<Longrightarrow> typed_world K key su W"
  show ?thesis
  proof (cases m)
    case (Turn i W rnd)
    from m [unfolded Turn] show ?thesis
    proof (rule flap_turn_move)
      assume i: "i < length (f_clients s)"
        and t: "t = s\<lparr>f_crashed := True\<rparr> \<or>
          (\<exists>c. flap_turn W su rnd f (f_done s) (f_clients s ! i) = Ok c \<and> t = set_client i c s)"
        and n: "f_pc (f_clients s ! i) \<noteq> FlapEnd" "idle (f_clients s ! i)"
      have "flap_client_ok K key su (f_clients s ! i)"
        using assms(2) i by (simp add: flap_safe_inv_def)
      from flap_turn_safe [OF w [OF Turn] this assms(3)] obtain c where
        c: "flap_turn W su rnd f (f_done s) (f_clients s ! i) = Ok c" "flap_client_ok K key su c"
        by blast
      then have "t = set_client i c s" using m i n by (simp add: Turn)
      with set_client_safe [OF assms(2) c(2)] show ?thesis by simp
    qed
  next
    case (FAct i j)
    with m flap_act_safe assms(2) show ?thesis by blast
  next
    case FCollect
    with m obtain r c where "chan_recv (f_rchan s) = Recv r c"
      "t = s\<lparr>f_rchan := c, f_results := f_results s @ [r]\<rparr>"
      by (auto split: recvres.splits)
    with chan_recv_RecvD(3) [of "f_rchan s" r c] assms(2) show ?thesis
      by (simp add: flap_safe_inv_def)
  next
    case Cancel
    with m assms(2) show ?thesis by (auto simp: flap_safe_inv_def split: if_splits)
  qed
qed

interpretation safe_flapping: step_invariant
  "\<lambda>s. flap_safe_inv K key su s \<and> 0 < wrap64 (MaxInterval f - MinInterval f)" "typed_flap K key su f"
  "\<lambda>s. flap_safe_inv K key su s \<and> 0 < wrap64 (MaxInterval f - MinInterval f)" for K key su f
  by unfold_locales (auto intro: typed_flap_safe)

section \<open>From the first dial to flapping\<close>

definition has_leases :: "DClient \<Rightarrow> bool" where
  "has_leases dc \<longleftrightarrow> (d4 dc \<noteq> None \<longrightarrow> d4Lease dc \<noteq> None) \<and> (d6 dc \<noteq> None \<longrightarrow> d6Lease dc \<noteq> None)"

lemma createV4_frame:
  assumes "createV4OtherClnt NL B su act dc = Ok dc'"
  shows "\<exists>c. dc' = dc\<lparr>d4OtherClnt := Some c\<rparr>"
  using assms by (auto simp: createV4OtherClnt_def Let_def gbind_eq_Ok split: option.splits)

lemma createV6_frame:
  assumes "createV6OtherClnt NL su dc = Ok dc'" and "V6MsgType su \<in> {MTSolicit, MTRelayForward}"
  shows "\<exists>c r. dc' = dc\<lparr>d6OtherClnt := Some c, d6relay := r\<rparr>"
proof -
  obtain l where l: "d6Lease dc = Some l"
    using assms(1) by (auto simp: createV6OtherClnt_def split: option.splits)
  show ?thesis
  proof (cases "V6MsgType su = MTSolicit")
    case True
    with assms(1) l obtain c where "dc' = dc\<lparr>d6OtherClnt := Some c\<rparr>"
      by (auto simp: createV6OtherClnt_def gbind_eq_Ok)
    then have "dc' = dc\<lparr>d6OtherClnt := Some c, d6relay := d6relay dc\<rparr>" by simp
    then show ?thesis by blast
  next
    case False
    with assms l show ?thesis by (auto simp: createV6OtherClnt_def gbind_eq_Ok)
  qed
qed

lemma prepare_flappable:
  assumes "prepare_client NL B su dc = Ok dc'" and "client_wired K key su dc" and "has_leases dc"
    and "\<forall>l. d4Lease dc = Some l \<longrightarrow> Lease4 l \<noteq> None" and "d6Lease dc \<noteq> None \<longrightarrow> d6 dc \<noteq> None"
  shows "flappable K key su dc'"
proof -
  from assms(1) obtain dc1 where
    1: "(if d4OtherClnt dc = None \<and> d4Lease dc \<noteq> None then createV4OtherClnt NL B su actionRelease dc
         else Ok dc) = Ok dc1"
    and 2: "(if d6OtherClnt dc1 = None \<and> d6Lease dc1 \<noteq> None then createV6OtherClnt NL su dc1
         else Ok dc1) = Ok dc'"
    by (auto simp: prepare_client_def gbind_eq_Ok)
  have "\<exists>x. dc1 = dc\<lparr>d4OtherClnt := x\<rparr> \<and> (d4Lease dc \<noteq> None \<longrightarrow> x \<noteq> None)"
  proof (cases "d4OtherClnt dc = None \<and> d4Lease dc \<noteq> None")
    case True
    with 1 createV4_frame [of NL B su actionRelease dc dc1] show ?thesis by auto
  next
    case False
    with 1 have "dc1 = dc\<lparr>d4OtherClnt := d4OtherClnt dc\<rparr>" by auto
    with False show ?thesis by blast
  qed
  then obtain x where x: "dc1 = dc\<lparr>d4OtherClnt := x\<rparr>" "d4Lease dc \<noteq> None \<longrightarrow> x \<noteq> None" by blast
  have v: "V6MsgType su \<in> {MTSolicit, MTRelayForward}" if "d6Lease dc \<noteq> None"
    using assms(2,5) that by (simp add: client_wired_def)
  have "\<exists>y r. dc' = dc1\<lparr>d6OtherClnt := y, d6relay := r\<rparr> \<and> (d6Lease dc \<noteq> None \<longrightarrow> y \<noteq> None)"
  proof (cases "d6OtherClnt dc1 = None \<and> d6Lease dc1 \<noteq> None")
    case True
    with 2 v x(1) createV6_frame [of NL su dc1 dc'] show ?thesis by auto
  next
    case False
    with 2 have "dc' = dc1\<lparr>d6OtherClnt := d6OtherClnt dc1, d6relay := d6relay dc1\<rparr>" by auto
    with False x(1) show ?thesis by (intro exI [of _ "d6OtherClnt dc1"] exI [of _ "d6relay dc1"]) auto
  qed
  then obtain y r where y: "dc' = dc\<lparr>d4OtherClnt := x, d6OtherClnt := y, d6relay := r\<rparr>"
    "d6Lease dc \<noteq> None \<longrightarrow> y \<noteq> None"
    by (auto simp: x(1))
  show ?thesis
    using assms(2-4) x(2) y(2) by (auto simp: flappable_def client_wired_def has_leases_def y(1))
qed

lemma prepare_flap_each:
  "prepare_flap NL B su dcs = Ok fs \<Longrightarrow> list_all2 (\<lambda>dc f. prepare_client NL B su dc = Ok f) dcs fs"
  by (induction dcs arbitrary: fs) (auto simp: gbind_eq_Ok)

lemma flapping_clients_sub: "set (flapping_clients f dcs) \<subseteq> set dcs"
proof -
  have "set (choose_clients i n dcs) \<subseteq> set dcs" for i n :: int
    by (induction dcs) auto
  then show ?thesis by (simp add: flapping_clients_def split: option.split) blast
qed

lemma flap_start_safe:
  assumes "\<forall>dc \<in> set fs. flappable K key su dc" and "open_chan c4" "open_chan c6"
  shows "flap_safe_inv K key su (flap_start su c4 c6 fs)"
  using assms flapping_clients_sub [of "Flapping su" fs]
  by (auto simp: flap_safe_inv_def flap_start_def flap_client_ok_def)


text \<open>
  The one client of the example, dialled once and prepared, goes through a whole round: it releases
  both leases and dials again.
\<close>

definition flap_example_conf :: FlappingConf where
  "flap_example_conf = \<lparr>FlapNum = 1, MinInterval = 5, MaxInterval = 30, StayDownDur = 10\<rparr>"

definition flap_cnf :: testSetup where
  "flap_cnf = example_cnf\<lparr>Flapping := Some flap_example_conf\<rparr>"

definition flap_started :: "testSetup \<times> Sched" where
  "flap_started = the_ok (main_start example_surroundings flap_cnf)"

definition flap_dcs :: "DClient list" where
  "flap_dcs = map (\<lambda>c. the_ok (new_client example_netlib example_ra example_key_const example_key
       (fst flap_started) c))
     (the_ok (genClientConfigurations example_api example_lib (fst flap_started)))"

definition flap_prepared :: "DClient list" where
  "flap_prepared = the_ok (prepare_flap example_netlib example_v4api (fst flap_started)
     (map (\<lambda>dc. redialed typed_example_world (fst flap_started) dc) flap_dcs))"

definition flap_round :: "fmove list" where
  "flap_round = [Turn 0 typed_example_world (\<lambda>n. n - 1), Turn 0 typed_example_world (\<lambda>n. n - 1)]
     @ replicate 5 (FAct 0 0) @ [Turn 0 typed_example_world (\<lambda>n. n - 1)]"

lemma flap_started_ok:
  "main_start example_surroundings flap_cnf = Ok (fst flap_started, snd flap_started)"
proof -
  have "is_Ok (main_start example_surroundings flap_cnf)" by code_simp
  then show ?thesis by (simp add: flap_started_def)
qed


lemma flap_table: "set flap_dcs \<subseteq> ran (ClntList (snd flap_started))"
proof -
  have a: "Action (fst flap_started) = actionDORA" "length flap_dcs = Suc 0" by code_simp+
  from fresh_table [OF main_start_Ok(2) [OF flap_started_ok] a(1), of flap_dcs] a(2)
  show ?thesis by (simp add: example_surroundings_def flap_dcs_def)
qed

lemma run_typed:
  assumes "run_flap su f ms s = Some t"
    and "\<And>i W rnd. Turn i W rnd \<in> set ms \<Longrightarrow> typed_world K key su W"
  shows "(typed_flap K key su f)\<^sup>*\<^sup>* s t"
  using assms
proof (induction ms arbitrary: s)
  case (Cons m ms)
  from Cons.prems(1) obtain u where u: "\<not> f_crashed s" "flap_move su f m s = Some u"
    "run_flap su f ms u = Some t"
    by (auto split: if_splits option.splits)
  have "typed_flap K key su f s u"
    by (rule typed_flap.move [OF u(1,2)]) (use Cons.prems(2) in auto)
  moreover have "(typed_flap K key su f)\<^sup>*\<^sup>* u t"
    by (rule Cons.IH [OF u(3)]) (use Cons.prems(2) in auto)
  ultimately show ?case by (rule converse_rtranclp_into_rtranclp)
qed simp


end
