(* ===== verification/ConPair.thy ===== *)
theory ConPair
  imports Dhcplt_Prelude
begin

text \<open>
  The in-memory packet connection of \<open>conpair/conpair.go\<close>: two ends, each with a buffered
  channel of packets and a read and a write timer. An end reads from its own channel and writes
  into its peer's.
\<close>

section \<open>Timers\<close>

text \<open>
  A \<open>time.Timer\<close> (before Go 1.23): it is active until it expires or is stopped; when it
  expires it puts one value into its channel, which stays there until it is received.
\<close>

record timer =
  active :: bool
  fired :: bool

definition timer_new :: timer where
  "timer_new = \<lparr>active = True, fired = False\<rparr>"

definition timer_expire :: "timer \<Rightarrow> timer" where
  "timer_expire t = (if active t then \<lparr>active = False, fired = True\<rparr> else t)"

definition timer_stop :: "timer \<Rightarrow> bool \<times> timer" where
  "timer_stop t = (active t, t\<lparr>active := False\<rparr>)"

definition timer_reset :: "timer \<Rightarrow> timer" where
  "timer_reset t = t\<lparr>active := True\<rparr>"

text \<open>Receiving from the timer's channel; \<open>None\<close> means the receiver blocks.\<close>

definition timer_receive :: "timer \<Rightarrow> timer option" where
  "timer_receive t = (if fired t then Some (t\<lparr>fired := False\<rparr>) else None)"

text \<open>
  \<open>SetReadDeadline\<close> and \<open>SetWriteDeadline\<close> on the timer concerned: stop it, drain its
  channel if it was not active, restart it. \<open>None\<close> means the call blocks; as a stopped timer
  never expires, it then blocks for good.
\<close>

definition set_deadline :: "timer \<Rightarrow> timer option" where
  "set_deadline t =
     (case timer_stop t of (running, t') \<Rightarrow>
        (case (if \<not> running then timer_receive t' else Some t') of
           None \<Rightarrow> None
         | Some t'' \<Rightarrow> Some (timer_reset t'')))"

definition timer_ok :: "timer \<Rightarrow> bool" where
  "timer_ok t \<longleftrightarrow> \<not> (active t \<and> fired t)"

section \<open>Connections\<close>

record end_state =
  ch :: "bytes gochan"
  readTimer :: timer
  wrtTimer :: timer

record pair =
  endA :: end_state
  endB :: end_state

definition maxChDepth :: nat where "maxChDepth = 32"

definition new_end :: end_state where
  "new_end = \<lparr>ch = make_chan maxChDepth, readTimer = timer_new, wrtTimer = timer_new\<rparr>"

definition NewPacketConnPair :: pair where
  "NewPacketConnPair = \<lparr>endA = new_end, endB = new_end\<rparr>"

datatype side = SideA | SideB

fun peer :: "side \<Rightarrow> side" where
  "peer SideA = SideB"
| "peer SideB = SideA"

fun end_of :: "pair \<Rightarrow> side \<Rightarrow> end_state" where
  "end_of p SideA = endA p"
| "end_of p SideB = endB p"

fun set_end :: "pair \<Rightarrow> side \<Rightarrow> end_state \<Rightarrow> pair" where
  "set_end p SideA e = p\<lparr>endA := e\<rparr>"
| "set_end p SideB e = p\<lparr>endB := e\<rparr>"

text \<open>
  What can happen on a connection. A read into a buffer of \<open>len\<close> bytes that takes the packet
  \<open>buf\<close> off the channel returns \<open>n = min len (length buf)\<close> of its bytes; a read of a closed
  and empty channel returns no bytes and no error. \<open>select\<close> takes any ready branch.
\<close>

datatype event =
    Wrote side bytes
  | WriteTimeout side
  | ReadPkt side nat bytes
  | ReadClosed side
  | ReadTimeout side
  | Closed side
  | SetRead side
  | SetWrite side
  | ReadExpires side
  | WriteExpires side

inductive pair_step :: "pair \<Rightarrow> event \<Rightarrow> pair \<Rightarrow> bool" where
  ReadFrom_pkt: "chan_recv (ch (end_of p s)) = Recv buf c
    \<Longrightarrow> pair_step p (ReadPkt s len buf) (set_end p s (end_of p s\<lparr>ch := c\<rparr>))"
| ReadFrom_closed: "chan_recv (ch (end_of p s)) = RecvZero
    \<Longrightarrow> pair_step p (ReadClosed s) p"
| ReadFrom_timeout: "timer_receive (readTimer (end_of p s)) = Some t
    \<Longrightarrow> pair_step p (ReadTimeout s) (set_end p s (end_of p s\<lparr>readTimer := t\<rparr>))"
| WriteTo_pkt: "chan_send (ch (end_of p (peer s))) buf = Sent c
    \<Longrightarrow> pair_step p (Wrote s buf) (set_end p (peer s) (end_of p (peer s)\<lparr>ch := c\<rparr>))"
| WriteTo_timeout: "timer_receive (wrtTimer (end_of p s)) = Some t
    \<Longrightarrow> pair_step p (WriteTimeout s) (set_end p s (end_of p s\<lparr>wrtTimer := t\<rparr>))"
| Close: "chan_close (ch (end_of p (peer s))) = Ok c
    \<Longrightarrow> pair_step p (Closed s) (set_end p (peer s) (end_of p (peer s)\<lparr>ch := c\<rparr>))"
| SetReadDeadline: "set_deadline (readTimer (end_of p s)) = Some t
    \<Longrightarrow> pair_step p (SetRead s) (set_end p s (end_of p s\<lparr>readTimer := t\<rparr>))"
| SetWriteDeadline: "set_deadline (wrtTimer (end_of p s)) = Some t
    \<Longrightarrow> pair_step p (SetWrite s) (set_end p s (end_of p s\<lparr>wrtTimer := t\<rparr>))"
| read_expires: "active (readTimer (end_of p s))
    \<Longrightarrow> pair_step p (ReadExpires s)
          (set_end p s (end_of p s\<lparr>readTimer := timer_expire (readTimer (end_of p s))\<rparr>))"
| write_expires: "active (wrtTimer (end_of p s))
    \<Longrightarrow> pair_step p (WriteExpires s)
          (set_end p s (end_of p s\<lparr>wrtTimer := timer_expire (wrtTimer (end_of p s))\<rparr>))"

inductive_cases ReadTimeoutE: "pair_step p (ReadTimeout s) p'"
inductive_cases ReadPktE: "pair_step p (ReadPkt s n b) p'"
inductive_cases WroteE: "pair_step p (Wrote s b) p'"
inductive_cases ClosedE: "pair_step p (Closed s) p'"
inductive_simps SetRead_iff: "pair_step p (SetRead s) p'"
inductive_simps ReadClosed_iff: "pair_step p (ReadClosed s) p'"

text \<open>What a read returns: the bytes copied into the caller's buffer.\<close>

fun read_result :: "event \<Rightarrow> bytes option" where
  "read_result (ReadPkt s len buf) = Some (take len buf)"
| "read_result (ReadClosed s) = Some []"
| "read_result _ = None"

text \<open>The calls that panic: a write or a close after the peer's channel has been closed.\<close>

definition write_panics :: "pair \<Rightarrow> side \<Rightarrow> bytes \<Rightarrow> bool" where
  "write_panics p s buf \<longleftrightarrow> chan_send (ch (end_of p (peer s))) buf = SendPanics"

definition close_panics :: "pair \<Rightarrow> side \<Rightarrow> bool" where
  "close_panics p s \<longleftrightarrow> chan_close (ch (end_of p (peer s))) = Panic"

fun pair_run :: "pair \<Rightarrow> event list \<Rightarrow> pair \<Rightarrow> bool" where
  "pair_run p [] q = (p = q)"
| "pair_run p (e # es) q = (\<exists>r. pair_step p e r \<and> pair_run r es q)"

fun written :: "side \<Rightarrow> event list \<Rightarrow> bytes list" where
  "written s [] = []"
| "written s (Wrote s' b # es) = (if s' = s then b # written s es else written s es)"
| "written s (_ # es) = written s es"

fun received :: "side \<Rightarrow> event list \<Rightarrow> bytes list" where
  "received s [] = []"
| "received s (ReadPkt s' n b # es) = (if s' = s then b # received s es else received s es)"
| "received s (_ # es) = received s es"

section \<open>The link from one end to the other\<close>

lemma end_of_set_end [simp]:
  "end_of (set_end p s e) s' = (if s' = s then e else end_of p s')"
  by (cases s; cases s') auto

lemma peer_simps [simp]: "peer (peer s) = s" "peer s \<noteq> s" "s \<noteq> peer s" "peer s = peer t \<longleftrightarrow> s = t"
  by (cases s; simp; cases t; simp)+

abbreviation in_flight :: "side \<Rightarrow> pair \<Rightarrow> bytes list" where
  "in_flight s p \<equiv> cbuf (ch (end_of p (peer s)))"

abbreviation link_abs :: "side \<Rightarrow> pair \<Rightarrow> bytes list \<times> nat" where
  "link_abs s p \<equiv> chan_abs (ch (end_of p (peer s)))"

text \<open>
  Writing at \<open>s\<close> and reading at its peer are the pushes and pops of one channel; every other
  event leaves that channel alone.
\<close>

fun link_ops :: "side \<Rightarrow> event list \<Rightarrow> bytes chan_op list" where
  "link_ops s [] = []"
| "link_ops s (Wrote s' b # es) = (if s' = s then Push b # link_ops s es else link_ops s es)"
| "link_ops s (ReadPkt s' n b # es) =
     (if s' = peer s then Pop b # link_ops s es else link_ops s es)"
| "link_ops s (_ # es) = link_ops s es"

lemma pushed_link_ops: "pushed (link_ops s es) = written s es"
  by (induction s es rule: link_ops.induct) auto

lemma popped_link_ops: "popped (link_ops s es) = received (peer s) es"
  by (induction s es rule: link_ops.induct) auto

lemma chan_close_abs: "chan_close c = Ok c' \<Longrightarrow> chan_abs c' = chan_abs c"
  by (auto simp: chan_close_def split: if_splits)

lemma step_link_abs:
  assumes "pair_step p e q"
  shows "run_ops buf_push buf_pop (link_abs s p) (link_ops s [e]) = Some (link_abs s q)"
  using assms
proof cases
  case (ReadFrom_pkt s' buf c len)
  then show ?thesis by (auto dest: chan_recv_abs)
next
  case (WriteTo_pkt s' buf c)
  then show ?thesis by (auto dest: chan_send_abs simp del: buf_push.simps)
next
  case (Close s' c)
  then show ?thesis by (auto dest: chan_close_abs)
qed auto

lemma run_ops_append:
  "run_ops push pop s (xs @ ys)
     = Option.bind (run_ops push pop s xs) (\<lambda>t. run_ops push pop t ys)"
  by (induction push pop s xs rule: run_ops.induct) (auto split: option.splits)

lemma link_ops_Cons: "link_ops s (e # es) = link_ops s [e] @ link_ops s es"
  by (cases e) auto

lemma run_link_abs:
  "pair_run p es q
    \<Longrightarrow> run_ops buf_push buf_pop (link_abs s p) (link_ops s es) = Some (link_abs s q)"
proof (induction es arbitrary: p)
  case (Cons e es)
  then obtain r where r: "pair_step p e r" "pair_run r es q" by auto
  show ?case
    unfolding link_ops_Cons [of s e es] run_ops_append step_link_abs [OF r(1)]
    using Cons.IH [OF r(2)] by simp
qed simp

section \<open>Timers of a run\<close>

lemma timer_ok_new [simp]: "timer_ok timer_new"
  by (simp add: timer_ok_def timer_new_def)

lemma timer_ok_ops:
  "timer_ok (timer_expire t)"
  "timer_ok t \<Longrightarrow> timer_receive t = Some t' \<Longrightarrow> timer_ok t'"
  "timer_ok t \<Longrightarrow> set_deadline t = Some t' \<Longrightarrow> timer_ok t'"
  by (auto simp: timer_ok_def timer_expire_def timer_receive_def set_deadline_def timer_stop_def
      timer_reset_def split: if_splits option.splits)

definition pair_ok :: "pair \<Rightarrow> bool" where
  "pair_ok p \<longleftrightarrow> (\<forall>s. timer_ok (readTimer (end_of p s)) \<and> timer_ok (wrtTimer (end_of p s))
     \<and> ccap (ch (end_of p s)) = maxChDepth \<and> chan_ok (ch (end_of p s)))"

lemma end_of_new [simp]: "end_of NewPacketConnPair s = new_end"
  by (cases s) (simp_all add: NewPacketConnPair_def)

lemma chan_ops_ok:
  "chan_recv c = Recv x c' \<Longrightarrow> chan_ok c \<Longrightarrow> chan_ok c'"
  "chan_send c x = Sent c' \<Longrightarrow> chan_ok c'"
  "chan_close c = Ok c' \<Longrightarrow> chan_ok c \<Longrightarrow> chan_ok c'"
  using chan_recv_RecvD [of c x c'] chan_send_SentD [of c x c'] chan_close_abs [of c c']
  by (auto simp: chan_ok_def)

interpretation pair_inv:
  step_invariant "\<lambda>p. p = NewPacketConnPair" "\<lambda>p q. \<exists>e. pair_step p e q" pair_ok
proof
  fix p q
  show "p = NewPacketConnPair \<Longrightarrow> pair_ok p" by (simp add: pair_ok_def new_end_def)
  assume "\<exists>e. pair_step p e q" and ok: "pair_ok p"
  then obtain e where "pair_step p e q" by blast
  then show "pair_ok q"
  proof cases
    case (ReadFrom_pkt s buf c len)
    then show ?thesis using ok by (auto simp: pair_ok_def dest: chan_recv_RecvD chan_ops_ok)
  next
    case (WriteTo_pkt s buf c)
    then show ?thesis using ok by (auto simp: pair_ok_def dest: chan_send_SentD chan_ops_ok)
  next
    case (Close s c)
    then show ?thesis using ok by (auto simp: pair_ok_def dest: chan_close_abs chan_ops_ok)
  qed (use ok in \<open>auto simp: pair_ok_def intro: timer_ok_ops\<close>)
qed

lemma pair_run_steps: "pair_run p es q \<Longrightarrow> (\<lambda>p q. \<exists>e. pair_step p e q)\<^sup>*\<^sup>* p q"
proof (induction es arbitrary: p)
  case (Cons e es)
  then obtain r where "pair_step p e r" "pair_run r es q" by auto
  then show ?case using Cons.IH by (blast intro: converse_rtranclp_into_rtranclp)
qed simp

lemma pair_run_ok: "pair_run NewPacketConnPair es q \<Longrightarrow> pair_ok q"
  using pair_inv.inv_reachable pair_run_steps by blast

lemma pair_in_order:
  assumes "pair_run NewPacketConnPair es p"
  shows "written s es = received (peer s) es @ in_flight s p \<and> length (in_flight s p) \<le> 32"
proof -
  have "in_flight s NewPacketConnPair @ written s es = received (peer s) es @ in_flight s p"
    using buffer_fifo.fifo_order [OF run_link_abs [OF assms, of s]]
    by (simp add: pushed_link_ops popped_link_ops)
  moreover have "length (in_flight s p) \<le> 32"
    using pair_run_ok [OF assms] unfolding pair_ok_def chan_ok_def maxChDepth_def by metis
  ultimately show ?thesis by (simp add: new_end_def)
qed

text \<open>A run for the witnesses: two packets from end A, the first one read at end B.\<close>

abbreviation one_packet :: pair where
  "one_packet \<equiv> NewPacketConnPair\<lparr>endB := new_end\<lparr>ch := (make_chan 32)\<lparr>cbuf := [[1, 2]]\<rparr>\<rparr>\<rparr>"

lemma write_example: "pair_step NewPacketConnPair (Wrote SideA [1, 2]) one_packet"
  by (rule WriteTo_pkt [THEN back_subst [of "\<lambda>q. pair_step _ _ q"]])
    (simp_all add: chan_send_def new_end_def maxChDepth_def make_chan_def NewPacketConnPair_def)

lemma read_example: "pair_step one_packet (ReadPkt SideB 1500 [1, 2]) NewPacketConnPair"
  by (rule ReadFrom_pkt [THEN back_subst [of "\<lambda>q. pair_step _ _ q"]])
    (simp_all add: chan_recv_def new_end_def maxChDepth_def make_chan_def NewPacketConnPair_def)

abbreviation expired_pair :: pair where
  "expired_pair \<equiv> NewPacketConnPair\<lparr>endA := new_end\<lparr>readTimer := \<lparr>active = False, fired = True\<rparr>\<rparr>\<rparr>"

lemma expire_example: "pair_step NewPacketConnPair (ReadExpires SideA) expired_pair"
  by (rule read_expires [THEN back_subst [of "\<lambda>q. pair_step _ _ q"]])
    (simp_all add: new_end_def timer_new_def timer_expire_def NewPacketConnPair_def)

abbreviation drained_pair :: pair where
  "drained_pair \<equiv> NewPacketConnPair\<lparr>endA := new_end\<lparr>readTimer := \<lparr>active = False, fired = False\<rparr>\<rparr>\<rparr>"

lemma timeout_example: "pair_step expired_pair (ReadTimeout SideA) drained_pair"
  by (rule ReadFrom_timeout [THEN back_subst [of "\<lambda>q. pair_step _ _ q"]])
    (simp_all add: timer_receive_def NewPacketConnPair_def)

abbreviation closed_pair :: pair where
  "closed_pair \<equiv> NewPacketConnPair\<lparr>endB := new_end\<lparr>ch := (make_chan 32)\<lparr>cclosed := True\<rparr>\<rparr>\<rparr>"

lemma close_example: "pair_step NewPacketConnPair (Closed SideA) closed_pair"
  by (rule Close [THEN back_subst [of "\<lambda>q. pair_step _ _ q"]])
    (simp_all add: chan_close_def new_end_def maxChDepth_def make_chan_def NewPacketConnPair_def)

section \<open>What the connection guarantees\<close>

text \<open>
  C32: packets arrive at the other end complete and in the order they were written, in each
  direction independently; what has been written and not yet read is in the channel, which never
  holds more than 32 packets.
\<close>

theorem pair_delivers_in_order:
  assumes "pair_run NewPacketConnPair es p"
  shows "written s es = received (peer s) es @ in_flight s p \<and> length (in_flight s p) \<le> 32"
  by (rule pair_in_order [OF assms])

theorem pair_delivers_in_order_witness:
  "written SideA [Wrote SideA [1, 2], ReadPkt SideB 1500 [1, 2]] = [[1, 2]]"
proof -
  have "pair_run NewPacketConnPair [Wrote SideA [1, 2], ReadPkt SideB 1500 [1, 2]] NewPacketConnPair"
    using write_example read_example by auto
  from pair_delivers_in_order [OF this, of SideA] show ?thesis by (simp add: new_end_def)
qed



text \<open>
  before that, setting the read deadline always returns, also when the timer has expired
  without a read noticing it.
\<close>

theorem deadline_returns:
  assumes "active (readTimer (end_of p s)) \<or> fired (readTimer (end_of p s))"
  shows "\<exists>q. pair_step p (SetRead s) q \<and> active (readTimer (end_of q s))"
  using assms
  by (auto simp: SetRead_iff set_deadline_def timer_stop_def timer_receive_def timer_reset_def)

theorem deadline_returns_witness:
  "\<exists>q. pair_step expired_pair (SetRead SideA) q \<and> active (readTimer (end_of q SideA))"
  by (rule deadline_returns) simp

text \<open>
  after an end has been closed, its peer first reads what is in flight; with the channel empty
  every read returns zero bytes and no error, writing at the closed end panics and so does closing
  it again.
\<close>

theorem after_close:
  assumes "pair_step p (Closed s) q"
  shows "in_flight s q = in_flight s p
    \<and> write_panics q s buf \<and> close_panics q s
    \<and> (pair_step q (ReadClosed (peer s)) q' \<longleftrightarrow> in_flight s q = [] \<and> q' = q)"
proof -
  from assms obtain c where c: "chan_close (ch (end_of p (peer s))) = Ok c"
    "q = set_end p (peer s) (end_of p (peer s)\<lparr>ch := c\<rparr>)"
    by (auto elim: ClosedE)
  have "cclosed c" "cbuf c = in_flight s p" using c(1) by (auto simp: chan_close_def split: if_splits)
  then show ?thesis
    by (auto simp: c(2) write_panics_def close_panics_def ReadClosed_iff chan_send_def
        chan_close_def chan_recv_def split: list.splits)
qed

theorem after_close_witness: "write_panics closed_pair SideA [7]"
  using after_close [OF close_example] by blast

end
