(* ===== verification/Relay.thy ===== *)
theory Relay
  imports Clients ConPair
begin

text \<open>
  The DHCPv6 relay agent (\<open>dhcpv6relay/relay.go\<close>) that runs in front of every simulated
  client when the clients' messages are to arrive relayed: how it is set up, its two receive
  loops, and the two directions put together with the in-memory connection to the client.
\<close>

section \<open>Connections of the relay\<close>

text \<open>
  The error of a read: whether it is a \<open>net.Error\<close> and then what its \<open>Timeout\<close> method
  says. A read gives the bytes put into the buffer, the sender's address (\<open>None\<close> is nil)
  and the error.
\<close>

datatype read_error = NotNetError | NetError (is_timeout: bool)

datatype goaddr = UDPAddr netip int | OtherAddr

type_synonym 'a read_result = "bytes \<times> 'a option \<times> read_error option"

fun UDP_ReadFromIP :: "(netip \<times> int) read_result \<Rightarrow> netip read_result" where
  "UDP_ReadFromIP (bs, Some (ip, port), e) = (bs, Some ip, e)"
| "UDP_ReadFromIP (bs, None, e) = (bs, None, e)"

text \<open>The address is asserted to be a UDP address; another type panics.\<close>

fun RUDP_ReadFromIP :: "goaddr read_result \<Rightarrow> (unit, netip read_result) gores" where
  "RUDP_ReadFromIP (bs, Some (UDPAddr ip port), e) = Ok (bs, Some ip, e)"
| "RUDP_ReadFromIP (bs, Some OtherAddr, e) = Panic"
| "RUDP_ReadFromIP (bs, None, e) = Ok (bs, None, e)"

fun Pair_ReadFromIP :: "goaddr read_result \<Rightarrow> netip read_result" where
  "Pair_ReadFromIP (bs, a, e) = (bs, Some (V6Addr 0), e)"

text \<open>
  What \<open>PacketConnPair.ReadFrom\<close> returns for the events of its end. Its time-out error is a
  value of \<open>timeoutErr\<close>, whose \<open>Timeout\<close> and \<open>Temporary\<close> methods have pointer
  receivers: the value is no \<open>net.Error\<close>.
\<close>

fun ReadFrom :: "event \<Rightarrow> goaddr read_result option" where
  "ReadFrom (ReadPkt s len buf) = Some (take len buf, None, None)"
| "ReadFrom (ReadClosed s) = Some ([], None, None)"
| "ReadFrom (ReadTimeout s) = Some ([], None, Some NotNetError)"
| "ReadFrom _ = None"

section \<open>The agent\<close>

record RelayAgent =
  accessZone :: string
  options :: "v6opt list"
  linkAddr :: "netip option"
  peerAddr :: "netip option"
  svrAdddr :: "netip \<times> int"

datatype modifier =
    WithSvrAddr "netip \<times> int" | WithLinkAddr netip | WithPeerAddr netip | WithOptions "v6opt list"

fun apply_modifier :: "RelayAgent \<Rightarrow> modifier \<Rightarrow> RelayAgent" where
  "apply_modifier r (WithSvrAddr a) = r\<lparr>svrAdddr := a\<rparr>"
| "apply_modifier r (WithLinkAddr a) = r\<lparr>linkAddr := Some a\<rparr>"
| "apply_modifier r (WithPeerAddr a) = r\<lparr>peerAddr := Some a\<rparr>"
| "apply_modifier r (WithOptions os) = r\<lparr>options := os\<rparr>"

definition DefaultServerPort6 :: int where "DefaultServerPort6 = 547"
definition DefaultClientPort6 :: int where "DefaultClientPort6 = 546"
definition maxDHCPv6Size :: nat where "maxDHCPv6Size = 1500"

definition NewRelayAgent :: "modifier list \<Rightarrow> RelayAgent" where
  "NewRelayAgent ms =
     foldl apply_modifier
       \<lparr>accessZone = [], options = [], linkAddr = None, peerAddr = None,
        svrAdddr = (V6Addr 0xFF020000000000000000000000010002, DefaultServerPort6)\<rparr> ms"

text \<open>The agent that the scheduler starts for a client, from the arguments it passes.\<close>

definition start_relay :: "relayagent \<Rightarrow> RelayAgent" where
  "start_relay ra =
     NewRelayAgent [WithLinkAddr (ra_linkAddr ra), WithPeerAddr (ra_peerAddr ra),
       WithOptions (ra_options ra)]"

section \<open>The library\<close>

text \<open>
  The agent never looks into a message itself: messages (\<open>'m\<close>), relay messages (\<open>'r\<close>)
  and the message inside a relay message (\<open>'i\<close>, \<open>None\<close> being a nil interface) are
  values of the library.
\<close>

record ('m, 'r, 'i) relay_api =
  MessageFromBytes :: "bytes \<Rightarrow> 'm option"
  ClientID_of :: "'m \<Rightarrow> duid option"
  EncapsulateRelay :: "'m \<Rightarrow> mtype \<Rightarrow> netip option \<Rightarrow> netip option \<Rightarrow> 'r option"
  relay_AddOption :: "'r \<Rightarrow> v6opt \<Rightarrow> 'r"
  relay_ToBytes :: "'r \<Rightarrow> bytes"
  RelayMessageFromBytes :: "bytes \<Rightarrow> 'r option"
  relay_MessageType :: "'r \<Rightarrow> mtype"
  relay_PeerAddr :: "'r \<Rightarrow> netip"
  RelayMessage_of :: "'r \<Rightarrow> 'i option"
  inner_ToBytes :: "'i \<Rightarrow> bytes"

section \<open>The two receive loops\<close>

text \<open>
  One packet written, with its destination, and what the loop does next: the next iteration, a
  return, or a panic (which ends the whole program).
\<close>

record sent =
  sent_bytes :: bytes
  sent_to :: "netip \<times> int"

datatype next_step = Continue | Return | Crash

text \<open>The handling of a read error, the same in both loops.\<close>

fun after_read :: "read_error option \<Rightarrow> next_step" where
  "after_read None = Continue"
| "after_read (Some NotNetError) = Crash"
| "after_read (Some (NetError timeout)) = (if timeout then Continue else Return)"

definition use_peer :: "RelayAgent \<Rightarrow> netip option \<Rightarrow> netip option" where
  "use_peer r src =
     (case src of
        None \<Rightarrow> peerAddr r
      | Some a \<Rightarrow> if addr_is_unspecified a \<or> a = V6Addr 0 then peerAddr r else src)"

text \<open>
  The body of \<open>recvAccess\<close> after the read; \<open>wr\<close> is whether the write succeeds.
\<close>

definition recvAccess_step :: "('m, 'r, 'i) relay_api \<Rightarrow> RelayAgent \<Rightarrow> netip read_result \<Rightarrow> bool
    \<Rightarrow> sent list \<times> next_step" where
  "recvAccess_step A r rd wr =
     (case rd of (buf, src, err) \<Rightarrow>
        if after_read err \<noteq> Continue then ([], after_read err)
        else case MessageFromBytes A buf of
          None \<Rightarrow> ([], Continue)
        | Some msg \<Rightarrow>
            if ClientID_of A msg = None then ([], Continue)
            else case EncapsulateRelay A msg MTRelayForward (linkAddr r) (use_peer r src) of
              None \<Rightarrow> ([], Continue)
            | Some fwd \<Rightarrow>
                ([\<lparr>sent_bytes = relay_ToBytes A (foldl (relay_AddOption A) fwd (options r)),
                   sent_to = svrAdddr r\<rparr>],
                 if wr then Continue else Return))"

text \<open>
  The body of \<open>recvNetwork\<close>. A relay-reply without a relayed message gives a nil interface,
  on which \<open>ToBytes\<close> panics.
\<close>

definition recvNetwork_step :: "('m, 'r, 'i) relay_api \<Rightarrow> RelayAgent \<Rightarrow> netip read_result \<Rightarrow> bool
    \<Rightarrow> sent list \<times> next_step" where
  "recvNetwork_step A r rd wr =
     (case rd of (buf, src, err) \<Rightarrow>
        if after_read err \<noteq> Continue then ([], after_read err)
        else case RelayMessageFromBytes A buf of
          None \<Rightarrow> ([], Continue)
        | Some msg \<Rightarrow>
            if relay_MessageType A msg \<noteq> MTRelayReply then ([], Continue)
            else case RelayMessage_of A msg of
              None \<Rightarrow> ([], Crash)
            | Some i \<Rightarrow>
                ([\<lparr>sent_bytes = inner_ToBytes A i, sent_to = (relay_PeerAddr A msg, DefaultClientPort6)\<rparr>],
                 if wr then Continue else Return))"

text \<open>
  A loop over what happens to it, one iteration after the other: the context is found done, or
  the read returns and the write that may follow succeeds or not. After the last one the loop is
  waiting in its read (\<open>Continue\<close>).
\<close>

datatype iteration = CtxDone | Iterate "netip read_result" bool

fun recv_loop :: "(netip read_result \<Rightarrow> bool \<Rightarrow> sent list \<times> next_step) \<Rightarrow> iteration list
    \<Rightarrow> sent list \<times> next_step" where
  "recv_loop body [] = ([], Continue)"
| "recv_loop body (CtxDone # its) = ([], Return)"
| "recv_loop body (Iterate rd wr # its) =
     (case body rd wr of
        (out, Continue) \<Rightarrow> (case recv_loop body its of (out', n) \<Rightarrow> (out @ out', n))
      | (out, n) \<Rightarrow> (out, n))"

definition recvAccess :: "('m, 'r, 'i) relay_api \<Rightarrow> RelayAgent \<Rightarrow> iteration list
    \<Rightarrow> sent list \<times> next_step" where
  "recvAccess A r its = recv_loop (recvAccess_step A r) its"

definition recvNetwork :: "('m, 'r, 'i) relay_api \<Rightarrow> RelayAgent \<Rightarrow> iteration list
    \<Rightarrow> sent list \<times> next_step" where
  "recvNetwork A r its = recv_loop (recvNetwork_step A r) its"

section \<open>Interface: a receive loop that reacts to single packets\<close>

text \<open>
  Both loops keep the same contract: an iteration that read a packet and could write handles the
  packet on its own (\<open>reply\<close>), or panics on it (\<open>bad\<close>).
\<close>

locale packet_loop =
  fixes body :: "netip read_result \<Rightarrow> bool \<Rightarrow> sent list \<times> next_step"
    and reply :: "bytes \<times> netip option \<Rightarrow> sent list"
    and bad :: "bytes \<Rightarrow> bool"
  assumes body_good: "\<not> bad buf \<Longrightarrow> body (buf, src, None) True = (reply (buf, src), Continue)"
    and body_bad: "bad buf \<Longrightarrow> body (buf, src, None) wr = ([], Crash)"
begin

lemma good_run:
  "\<forall>p \<in> set ps. \<not> bad (fst p) \<Longrightarrow>
   recv_loop body (map (\<lambda>(buf, src). Iterate (buf, src, None) True) ps @ its)
     = (case recv_loop body its of (out, n) \<Rightarrow> (concat (map reply ps) @ out, n))"
  by (induction ps) (auto simp: body_good split: prod.splits)

lemma bad_stops:
  assumes "\<forall>p \<in> set ps. \<not> bad (fst p)" and "bad buf"
  shows "recv_loop body (map (\<lambda>(buf, src). Iterate (buf, src, None) True) ps
           @ Iterate (buf, src, None) wr # its) = (concat (map reply ps), Crash)"
  by (simp add: good_run [OF assms(1)] body_bad [OF assms(2)])

end

definition access_reply :: "('m, 'r, 'i) relay_api \<Rightarrow> RelayAgent \<Rightarrow> bytes \<times> netip option
    \<Rightarrow> sent list" where
  "access_reply A r p = fst (recvAccess_step A r (fst p, snd p, None) True)"

definition network_reply :: "('m, 'r, 'i) relay_api \<Rightarrow> RelayAgent \<Rightarrow> bytes \<times> netip option
    \<Rightarrow> sent list" where
  "network_reply A r p = fst (recvNetwork_step A r (fst p, snd p, None) True)"

definition empty_reply :: "('m, 'r, 'i) relay_api \<Rightarrow> bytes \<Rightarrow> bool" where
  "empty_reply A buf \<longleftrightarrow>
     (case RelayMessageFromBytes A buf of
        None \<Rightarrow> False
      | Some msg \<Rightarrow> relay_MessageType A msg = MTRelayReply \<and> RelayMessage_of A msg = None)"

interpretation access_loop: packet_loop "recvAccess_step A r" "access_reply A r" "\<lambda>_. False"
  for A r
  by unfold_locales
    (auto simp: access_reply_def recvAccess_step_def split: option.splits)

interpretation network_loop: packet_loop "recvNetwork_step A r" "network_reply A r" "empty_reply A"
  for A r
  by unfold_locales
    (auto simp: network_reply_def recvNetwork_step_def empty_reply_def split: option.splits if_splits)

section \<open>Runs of the loops\<close>

abbreviation packets :: "(bytes \<times> netip option) list \<Rightarrow> iteration list" where
  "packets ps \<equiv> map (\<lambda>(buf, src). Iterate (buf, src, None) True) ps"

lemma recvAccess_packets: "recvAccess A r (packets ps) = (concat (map (access_reply A r) ps), Continue)"
  using access_loop.good_run [of ps A r "[]"] by (simp add: recvAccess_def)

lemma recvNetwork_packets:
  "\<forall>p \<in> set ps. \<not> empty_reply A (fst p) \<Longrightarrow>
     recvNetwork A r (packets ps) = (concat (map (network_reply A r) ps), Continue)"
  using network_loop.good_run [of ps A r "[]"] by (simp add: recvNetwork_def)

lemma recvNetwork_crash:
  assumes "\<forall>p \<in> set ps. \<not> empty_reply A (fst p)" and "empty_reply A (fst q)"
  shows "recvNetwork A r (packets (ps @ q # qs)) = (concat (map (network_reply A r) ps), Crash)"
  using network_loop.bad_stops [OF assms, of r "snd q" True "packets qs"]
  by (simp add: recvNetwork_def case_prod_beta)

text \<open>What the agent makes of one packet, written out.\<close>

definition relayed :: "('m, 'r, 'i) relay_api \<Rightarrow> relayagent \<Rightarrow> bytes \<Rightarrow> sent option" where
  "relayed A ra pkt =
     Option.bind (MessageFromBytes A pkt) (\<lambda>msg.
     Option.bind (ClientID_of A msg) (\<lambda>_.
     map_option (\<lambda>fwd. \<lparr>sent_bytes = relay_ToBytes A (foldl (relay_AddOption A) fwd (ra_options ra)),
                          sent_to = (V6Addr 0xFF020000000000000000000000010002, 547)\<rparr>)
       (EncapsulateRelay A msg MTRelayForward (Some (ra_linkAddr ra)) (Some (ra_peerAddr ra)))))"

definition unwrapped :: "('m, 'r, 'i) relay_api \<Rightarrow> bytes \<Rightarrow> bytes option" where
  "unwrapped A pkt =
     Option.bind (RelayMessageFromBytes A pkt) (\<lambda>msg.
       if relay_MessageType A msg = MTRelayReply
       then map_option (inner_ToBytes A) (RelayMessage_of A msg) else None)"

lemma start_relay_fields [simp]:
  "options (start_relay ra) = ra_options ra" "linkAddr (start_relay ra) = Some (ra_linkAddr ra)"
  "peerAddr (start_relay ra) = Some (ra_peerAddr ra)"
  "svrAdddr (start_relay ra) = (V6Addr 0xFF020000000000000000000000010002, 547)"
  by (simp_all add: start_relay_def NewRelayAgent_def DefaultServerPort6_def)

lemma access_reply_relayed:
  "access_reply A (start_relay ra) (pkt, Some (V6Addr 0))
     = (case relayed A ra pkt of None \<Rightarrow> [] | Some s \<Rightarrow> [s])"
  by (auto simp: access_reply_def recvAccess_step_def relayed_def use_peer_def split: option.splits)

lemma network_reply_unwrapped:
  "map sent_bytes (network_reply A r p) = (case unwrapped A (fst p) of None \<Rightarrow> [] | Some b \<Rightarrow> [b])"
  by (auto simp: network_reply_def recvNetwork_step_def unwrapped_def split: option.splits)

lemma concat_options: "concat (map (\<lambda>x. case f x of None \<Rightarrow> [] | Some y \<Rightarrow> [y]) xs) = List.map_filter f xs"
  by (induction xs) (auto simp: map_filter_simps split: option.splits)

lemma network_replies:
  "map sent_bytes (concat (map (network_reply A r) ps)) = List.map_filter (unwrapped A) (map fst ps)"
proof (induction ps)
  case (Cons p ps)
  then show ?case
    by (simp add: network_reply_unwrapped map_filter_simps split: option.split)
qed (simp add: map_filter_simps)

section \<open>The relay and its client's connection\<close>

text \<open>The iterations of \<open>recvAccess\<close> on the relay's end (B) of the connection.\<close>

fun at_relay :: "event \<Rightarrow> bool" where
  "at_relay (ReadPkt s len buf) = (s = SideB)"
| "at_relay (ReadClosed s) = (s = SideB)"
| "at_relay (ReadTimeout s) = (s = SideB)"
| "at_relay _ = False"

fun access_reads :: "event list \<Rightarrow> iteration list" where
  "access_reads [] = []"
| "access_reads (e # es) =
     (case (if at_relay e then ReadFrom e else None) of
        None \<Rightarrow> access_reads es
      | Some rd \<Rightarrow> Iterate (Pair_ReadFromIP rd) True # access_reads es)"

text \<open>The packets among them, a read of the closed connection being an empty one.\<close>

fun relay_packets :: "event list \<Rightarrow> bytes list" where
  "relay_packets [] = []"
| "relay_packets (ReadPkt s len buf # es) =
     (if s = SideB then take len buf # relay_packets es else relay_packets es)"
| "relay_packets (ReadClosed s # es) = (if s = SideB then [] # relay_packets es else relay_packets es)"
| "relay_packets (_ # es) = relay_packets es"

lemma access_reads_no_timeout:
  "ReadTimeout SideB \<notin> set es \<Longrightarrow>
     access_reads es = packets (map (\<lambda>b. (b, Some (V6Addr 0))) (relay_packets es))"
  by (induction es rule: relay_packets.induct) auto

lemma access_reads_append: "access_reads (es @ es') = access_reads es @ access_reads es'"
  by (induction es) (auto split: option.splits)

lemma relay_packets_received:
  "\<forall>n b. ReadPkt SideB n b \<in> set es \<longrightarrow> n = k \<Longrightarrow> MessageFromBytes A [] = None \<Longrightarrow>
   List.map_filter (relayed A ra) (relay_packets es)
     = List.map_filter (relayed A ra) (map (take k) (received SideB es))"
proof (induction es rule: relay_packets.induct)
  case (3 s es)
  then show ?case by (simp add: map_filter_simps relayed_def)
qed (auto simp: map_filter_simps split: option.splits)

lemma recvAccess_run:
  "ReadTimeout SideB \<notin> set es \<Longrightarrow>
   recvAccess A (start_relay ra) (access_reads es)
     = (List.map_filter (relayed A ra) (relay_packets es), Continue)"
  unfolding access_reads_no_timeout recvAccess_packets
  by (simp add: comp_def access_reply_relayed concat_options)

lemma recv_loop_after:
  "recv_loop body its = (out, Continue) \<Longrightarrow>
   recv_loop body (its @ its') = (case recv_loop body its' of (out', n) \<Rightarrow> (out @ out', n))"
proof (induction its arbitrary: out)
  case (Cons it its)
  then show ?case
    by (cases it) (auto split: prod.splits next_step.splits)
qed simp

lemma relay_packets_at: "relay_packets (es @ es') = relay_packets es @ relay_packets es'"
  by (induction es rule: relay_packets.induct) auto

section \<open>Properties\<close>

text \<open>
  A library for the applications of the properties: a message is its bytes, a relay message its
  type, peer address and inner message.
\<close>

definition example_relay_api :: "(bytes, mtype \<times> netip \<times> bytes, bytes) relay_api" where
  "example_relay_api =
     \<lparr>MessageFromBytes = (\<lambda>b. if b = [] then None else Some b),
      ClientID_of = (\<lambda>m. Some (DUIDOther m)),
      EncapsulateRelay = (\<lambda>m t l p. map_option (\<lambda>a. (t, a, m)) p),
      relay_AddOption = (\<lambda>r x. r), relay_ToBytes = (\<lambda>(t, a, m). 12 # m),
      RelayMessageFromBytes = (\<lambda>b. if b = [] then None
         else Some (if hd b = 13 then MTRelayReply else MTRelayForward, V6Addr 5, tl b)),
      relay_MessageType = (\<lambda>(t, a, m). t), relay_PeerAddr = (\<lambda>(t, a, m). a),
      RelayMessage_of = (\<lambda>(t, a, m). if m = [] then None else Some m),
      inner_ToBytes = (\<lambda>m. m)\<rparr>"

definition example_agent :: relayagent where
  "example_agent = \<lparr>ra_network = \<lparr>ru_local = AddrPort (V6Addr 9) 546, ru_econn = None,
      ru_acceptAny = True\<rparr>, ra_linkAddr = V6Addr 0, ra_peerAddr = V6Addr 9, ra_options = []\<rparr>"

abbreviation reply_in_flight :: pair where
  "reply_in_flight \<equiv> NewPacketConnPair\<lparr>endA := new_end\<lparr>ch := (make_chan 32)\<lparr>cbuf := [[1, 2]]\<rparr>\<rparr>\<rparr>"

lemma write_reply_example: "pair_step NewPacketConnPair (Wrote SideB [1, 2]) reply_in_flight"
  by (rule WriteTo_pkt [THEN back_subst [of "\<lambda>q. pair_step _ _ q"]])
    (simp_all add: chan_send_def new_end_def maxChDepth_def make_chan_def NewPacketConnPair_def)

text \<open>
  C11: what a client writes reaches the server: the relay sends, in order, exactly the packets
  it read that are DHCPv6 messages with a client identifier, each wrapped in a relay-forward
  message with the configured link address, the client's link-local address as peer address and
  all configured options, to port 547 of the servers' multicast address; the packets not
  yet relayed are the at most 32 in the connection. It then waits for the next packet.
\<close>

theorem relay_forwards_client_packets:
  assumes "pair_run NewPacketConnPair es p" and "ReadTimeout SideB \<notin> set es"
    and "\<forall>n b. ReadPkt SideB n b \<in> set es \<longrightarrow> n = maxDHCPv6Size"
    and "MessageFromBytes A [] = None"
    and "recvAccess A (start_relay ra) (access_reads es) = (out, next)"
  shows "\<exists>done. written SideA es = done @ in_flight SideA p \<and> length (in_flight SideA p) \<le> 32
    \<and> out = List.map_filter (relayed A ra) (map (take 1500) done) \<and> next = Continue"
proof (intro exI conjI)
  show "written SideA es = received SideB es @ in_flight SideA p" "length (in_flight SideA p) \<le> 32"
    using pair_in_order [OF assms(1), of SideA] by simp_all
  show "out = List.map_filter (relayed A ra) (map (take 1500) (received SideB es))" "next = Continue"
    using recvAccess_run [OF assms(2), of A ra] assms(5) relay_packets_received [OF assms(3,4)]
    by (simp_all add: maxDHCPv6Size_def)
qed

theorem relay_forwards_client_packets_witness:
  "\<exists>done. [[1, 2]] = done @ in_flight SideA NewPacketConnPair
     \<and> [\<lparr>sent_bytes = [12, 1, 2], sent_to = (V6Addr 0xFF020000000000000000000000010002, 547)\<rparr>]
         = List.map_filter (relayed example_relay_api example_agent) (map (take 1500) done)"
proof -
  let ?es = "[Wrote SideA [1, 2], ReadPkt SideB 1500 [1, 2]]"
  have run: "pair_run NewPacketConnPair ?es NewPacketConnPair"
    using write_example read_example by auto
  have loop: "recvAccess example_relay_api (start_relay example_agent) (access_reads ?es)
      = ([\<lparr>sent_bytes = [12, 1, 2], sent_to = (V6Addr 0xFF020000000000000000000000010002, 547)\<rparr>],
         Continue)"
    by code_simp
  have "MessageFromBytes example_relay_api [] = None" by (simp add: example_relay_api_def)
  from relay_forwards_client_packets [OF run _ _ this loop] show ?thesis
    by (auto simp: maxDHCPv6Size_def)
qed

text \<open>
  C12: what the server answers reaches the client: the client reads, in order, the messages
  inside the relay-replies the relay received (everything else is dropped), at most 32 of them
  still being on their way.
\<close>

theorem relay_returns_replies:
  assumes "\<forall>q \<in> set ps. \<not> empty_reply A (fst q)"
    and "recvNetwork A r (packets ps) = (out, next)"
    and "pair_run NewPacketConnPair es p" and "written SideB es = map sent_bytes out"
  shows "List.map_filter (unwrapped A) (map fst ps) = received SideA es @ in_flight SideB p
    \<and> length (in_flight SideB p) \<le> 32 \<and> next = Continue"
proof -
  have "map sent_bytes out = List.map_filter (unwrapped A) (map fst ps)"
    using recvNetwork_packets [OF assms(1), of r] assms(2)
    by (simp add: network_replies)
  then show ?thesis
    using pair_in_order [OF assms(3), of SideB] recvNetwork_packets [OF assms(1), of r] assms(2,4)
    by simp
qed

theorem relay_returns_replies_witness:
  "List.map_filter (unwrapped example_relay_api) [[12, 7], [13, 1, 2]]
     = in_flight SideB reply_in_flight"
proof -
  let ?ps = "[([12, 7], None), ([13, 1, 2], None)] :: (bytes \<times> netip option) list"
  have good: "\<forall>q \<in> set ?ps. \<not> empty_reply example_relay_api (fst q)" by code_simp
  have loop: "recvNetwork example_relay_api (start_relay example_agent) (packets ?ps)
      = ([\<lparr>sent_bytes = [1, 2], sent_to = (V6Addr 5, 546)\<rparr>], Continue)"
    by code_simp
  have run: "pair_run NewPacketConnPair [Wrote SideB [1, 2]] reply_in_flight"
    using write_reply_example by simp
  from relay_returns_replies [OF good loop run] show ?thesis by simp
qed

text \<open>
  C25: a relay-reply without a relayed message ends the program: whatever valid packets come
  before it are delivered, then the loop panics, and only such a packet makes it panic.
\<close>

theorem empty_relay_reply_crashes:
  "snd (recvNetwork A r (packets ps)) = Crash \<longleftrightarrow> (\<exists>q \<in> set ps. empty_reply A (fst q))"
proof (cases "\<exists>q \<in> set ps. empty_reply A (fst q)")
  case True
  then obtain xs q ys where "ps = xs @ q # ys" "empty_reply A (fst q)"
    "\<forall>x \<in> set xs. \<not> empty_reply A (fst x)"
    using split_list_first_prop [OF True] by blast
  with recvNetwork_crash [of xs A q r ys] True show ?thesis by simp
next
  case False
  then show ?thesis by (simp add: recvNetwork_packets)
qed

text \<open>
  C26: on the connection to its client, the relay's access loop panics exactly when a read of it
  times out: the time-out error of that connection is not a \<open>net.Error\<close>.
\<close>

theorem access_timeout_crashes:
  "snd (recvAccess A (start_relay ra) (access_reads es)) = Crash \<longleftrightarrow> ReadTimeout SideB \<in> set es"
proof (cases "ReadTimeout SideB \<in> set es")
  case True
  then obtain xs ys where x: "es = xs @ ReadTimeout SideB # ys" "ReadTimeout SideB \<notin> set xs"
    using split_list_first [OF True] by blast
  have "recvAccess_step A (start_relay ra) ([], Some (V6Addr 0), Some NotNetError) True = ([], Crash)"
    by (simp add: recvAccess_step_def)
  with recvAccess_run [OF x(2), of A ra] show ?thesis
    by (simp add: x(1) access_reads_append recvAccess_def recv_loop_after split: prod.splits)
next
  case False
  then show ?thesis by (simp add: recvAccess_run)
qed

end
