(* ===== verification/Interrupt.thy ===== *)
theory Interrupt
  imports Run
begin

text \<open>
  A dial run that may be interrupted. \<open>handleCtrlC\<close> (\<open>dhcplt.go\<close>) waits for the first signal
  and cancels the context \<open>run\<close> was given; in a run without flapping only the saver looks at it,
  through the context derived from it (\<open>sched.go\<close>, \<open>run\<close>). The machine of \<open>Sched\<close> with that
  event at any time, an abstract specification of it, and what an interrupt can do.
\<close>

section \<open>The machine with an interrupt\<close>

definition handleCtrlC :: "sys \<Rightarrow> sys" where
  "handleCtrlC s = s\<lparr>cancelled := True\<rparr>"

text \<open>A context is cancelled once; a signal after that changes nothing.\<close>

inductive int_step :: "sys \<Rightarrow> sys \<Rightarrow> bool" where
  prog: "sys_step s t \<Longrightarrow> int_step s t"
| signal: "\<not> crashed s \<Longrightarrow> main_at s \<noteq> MDone \<Longrightarrow> \<not> cancelled s \<Longrightarrow> int_step s (handleCtrlC s)"

inductive_cases int_stepE: "int_step s t"

lemma handleCtrlC_sel [simp]:
  "pending (handleCtrlC s) = pending s" "threads (handleCtrlC s) = threads s"
  "main_wg (handleCtrlC s) = main_wg s" "rchan (handleCtrlC s) = rchan s"
  "s4chan (handleCtrlC s) = s4chan s" "s6chan (handleCtrlC s) = s6chan s"
  "collected (handleCtrlC s) = collected s" "collector_ended (handleCtrlC s) = collector_ended s"
  "saving (handleCtrlC s) = saving s" "saver_on (handleCtrlC s) = saver_on s"
  "cancelled (handleCtrlC s)" "stored (handleCtrlC s) = stored s"
  "main_at (handleCtrlC s) = main_at s" "crashed (handleCtrlC s) = crashed s"
  by (simp_all add: handleCtrlC_def)

lemma load_signal [simp]: "load w (handleCtrlC s) = load w s"
  by (rule load_cong) simp_all

lemma signal_inv: "sched_inv c4 c6 s \<Longrightarrow> sched_inv c4 c6 (handleCtrlC s)"
  by (auto simp: sched_inv_def threads_inv_def main_inv_def saver_inv_def)

section \<open>The specification of a dial run\<close>

text \<open>
  What a dial run is for: the results still to come and those counted, the leases still to come and
  those stored, and whether it is over. It may only be over when every result has been counted.
\<close>

record dial_spec =
  sp_todo :: "dialResult multiset"
  sp_got :: "dialResult multiset"
  sp_leases :: "saved multiset"
  sp_stored :: "saved multiset"
  sp_over :: bool

inductive spec_step :: "dial_spec \<Rightarrow> dial_spec \<Rightarrow> bool" where
  count: "\<not> sp_over a \<Longrightarrow> sp_todo a = add_mset r T \<Longrightarrow>
    spec_step a (a\<lparr>sp_todo := T, sp_got := add_mset r (sp_got a)\<rparr>)"
| store: "\<not> sp_over a \<Longrightarrow> sp_leases a = add_mset l L \<Longrightarrow>
    spec_step a (a\<lparr>sp_leases := L, sp_stored := add_mset l (sp_stored a)\<rparr>)"
| finish: "\<not> sp_over a \<Longrightarrow> sp_todo a = {#} \<Longrightarrow> spec_step a (a\<lparr>sp_over := True\<rparr>)"

definition spec_view :: "sys \<Rightarrow> dial_spec" where
  "spec_view s =
     \<lparr>sp_todo = mset (cbuf (rchan s)) + load res_w s, sp_got = mset (collected s),
      sp_leases = mset (save_buf (s4chan s)) + mset (save_buf (s6chan s)) + load save_w s,
      sp_stored = mset (stored s), sp_over = (main_at s = MDone)\<rparr>"

text \<open>A move that counts and stores nothing is invisible, unless it is the last one.\<close>

lemma view_same:
  assumes "tot_results t = tot_results s" "tot_saves t = tot_saves s"
    and "collected t = collected s" "stored t = stored s" "main_at t = MDone \<longleftrightarrow> main_at s = MDone"
  shows "spec_view t = spec_view s"
  using assms by (auto simp: spec_view_def tot_results_def tot_saves_def add.assoc)

lemma do_ev_frame:
  "do_ev i e s = Some t \<Longrightarrow> collected t = collected s \<and> stored t = stored s"
  by (cases "(i, e, s)" rule: do_ev.cases) (auto split: sendres.splits option.splits if_splits)

lemma act_frame:
  assumes "sys_move (Act i j) s = Some t"
  shows "collected t = collected s \<and> stored t = stored s \<and> main_at t = main_at s"
proof -
  from act_move [OF assms] obtain a es where
    "case a of Crash \<Rightarrow> t = s\<lparr>crashed := True\<rparr> | Do e \<Rightarrow> do_ev i e (popped_sys i j es s) = Some t"
    by blast
  then show ?thesis by (cases a) (auto dest: do_ev_frame do_ev_main)
qed

lemma quiet_main:
  assumes "sys_move m s = Some t"
    and "m \<in> {StartClient, AllStarted, MainNext, SaverStop} \<union> range Spawn \<union> range ClientDone" "m \<noteq> MainNext"
  shows "main_at t = MDone \<longleftrightarrow> main_at s = MDone"
  using assms by (auto split: list.splits if_splits)

lemma view_recv:
  assumes "m = Save4 \<or> m = Save6" and "sys_move m s = Some t" and "main_at s \<noteq> MDone"
  shows "spec_step (spec_view s) (spec_view t)"
proof -
  have l: "load w t = load w s" for w :: "act \<Rightarrow> 'm::cancel_comm_monoid_add"
    using load_other [OF assms(2)] assms(1) by blast
  from assms(1,2) obtain x q where *: "(m = Save4 \<and> recv_save (s4chan s) = Some (x, q)
        \<and> t = s\<lparr>s4chan := Some q, stored := stored s @ [x]\<rparr>)
      \<or> (m = Save6 \<and> recv_save (s6chan s) = Some (x, q)
        \<and> t = s\<lparr>s6chan := Some q, stored := stored s @ [x]\<rparr>)"
    by (auto split: if_splits option.splits)
  then have "sp_leases (spec_view s) = add_mset x (sp_leases (spec_view t))"
    using recv_save_buf l [of save_w] by (auto simp: spec_view_def save_buf_def)
  moreover have "spec_view t = (spec_view s)\<lparr>sp_leases := sp_leases (spec_view t),
      sp_stored := add_mset x (sp_stored (spec_view s))\<rparr>"
    using * l [of res_w] by (auto simp: spec_view_def)
  moreover have "\<not> sp_over (spec_view s)" using assms(3) by (simp add: spec_view_def)
  ultimately show ?thesis using spec_step.store by metis
qed

lemma view_collect:
  assumes "sys_move Collect s = Some t" and "main_at s \<noteq> MDone" and "chan_recv (rchan s) = Recv r c"
  shows "spec_step (spec_view s) (spec_view t)"
proof -
  have l: "load w t = load w s" for w :: "act \<Rightarrow> 'm::cancel_comm_monoid_add"
    using load_other [OF assms(1)] by blast
  have t: "t = s\<lparr>rchan := c, collected := collected s @ [r]\<rparr>"
    using assms(1,3) by (simp split: if_splits)
  have "sp_todo (spec_view s) = add_mset r (sp_todo (spec_view t))"
    using chan_recv_RecvD(1) [OF assms(3)] l [of res_w] t by (simp add: spec_view_def)
  moreover have "spec_view t = (spec_view s)\<lparr>sp_todo := sp_todo (spec_view t),
      sp_got := add_mset r (sp_got (spec_view s))\<rparr>"
    using t l [of save_w] by (simp add: spec_view_def)
  moreover have "\<not> sp_over (spec_view s)" using assms(2) by (simp add: spec_view_def)
  ultimately show ?thesis using spec_step.count by metis
qed

lemma view_main:
  assumes "sys_move MainNext s = Some t" and "sched_inv c4 c6 s" and "main_at s \<noteq> MDone"
  shows "spec_step\<^sup>=\<^sup>= (spec_view s) (spec_view t)"
proof (cases "main_at t = MDone")
  case False
  have m: "main_next s = Some t" using assms(1) by simp
  have "spec_view t = spec_view s"
    by (rule view_same) (simp_all add: tot_move [OF assms(1,2)] main_next_frame [OF m] False assms(3))
  then show ?thesis by simp
next
  case True
  have m: "main_next s = Some t" using assms(1) by simp
  note d = done_empty [OF sched_inv_move [OF assms(1,2)] True]
  have "sp_todo (spec_view t) = {#}" using d by (simp add: spec_view_def)
  moreover have "spec_view t = (spec_view s)\<lparr>sp_over := True\<rparr>"
    using load_other [OF assms(1), of res_w] load_other [OF assms(1), of save_w] True
    by (simp add: spec_view_def main_next_frame [OF m])
  moreover have "\<not> sp_over (spec_view s)" using assms(3) by (simp add: spec_view_def)
  ultimately show ?thesis
    using spec_step.finish [of "spec_view s"] by simp
qed

lemma move_refines:
  assumes "sys_move m s = Some t" and "sched_inv c4 c6 s" and "main_at s \<noteq> MDone"
  shows "spec_step\<^sup>=\<^sup>= (spec_view s) (spec_view t)"
proof -
  have same: "spec_step\<^sup>=\<^sup>= (spec_view s) (spec_view t)"
    if "collected t = collected s" "stored t = stored s" "main_at t \<noteq> MDone"
    using view_same [of t s] tot_move [OF assms(1,2)] that assms(3) by simp
  have quiet: ?thesis
    if "m \<in> {StartClient, AllStarted, MainNext, SaverStop} \<union> range Spawn \<union> range ClientDone"
      "m \<noteq> MainNext"
    using tot_frame [OF assms(1) that(1)] quiet_main [OF assms(1) that] assms(3)
    by (intro same) simp_all
  show ?thesis
  proof (cases m)
    case (Act i j)
    with act_frame [of i j s t] assms(1,3) show ?thesis by (intro same) simp_all
  next
    case MainNext
    with view_main assms show ?thesis by blast
  next
    case Collect
    show ?thesis
    proof (cases "chan_recv (rchan s)")
      case (Recv r c)
      with view_collect assms Collect show ?thesis by blast
    next
      case RecvZero
      with assms(1) Collect have "t = s\<lparr>collector_ended := True\<rparr>" by (simp split: if_splits)
      with assms(3) show ?thesis by (intro same) simp_all
    qed (use assms Collect in \<open>simp split: if_splits\<close>)
  next
    case Save4
    with view_recv [of m s t] assms show ?thesis by simp
  next
    case Save6
    with view_recv [of m s t] assms show ?thesis by simp
  qed (use quiet assms in auto)
qed

section \<open>Runs with an interrupt\<close>

abbreviation int_inv :: "testSetup \<Rightarrow> sys \<Rightarrow> bool" where
  "int_inv su \<equiv> sched_inv (has_chan su (saveV4Chan su)) (has_chan su (saveV6Chan su))"

definition int_rank :: "sys \<Rightarrow> nat" where
  "int_rank s = rank s + (if cancelled s then 0 else 1)"

lemma cancelled_stays:
  assumes "sys_move m s = Some t" and "cancelled s"
  shows "cancelled t"
proof (cases m)
  case (Act i j)
  with act_move [of i j s t] assms(1) obtain a es where
    "case a of Crash \<Rightarrow> t = s\<lparr>crashed := True\<rparr> | Do e \<Rightarrow> do_ev i e (popped_sys i j es s) = Some t"
    by blast
  with assms(2) show ?thesis by (cases a) (auto dest: do_ev_main)
next
  case MainNext
  with assms show ?thesis
    by (cases "main_at s") (auto simp: main_next_def split: if_splits gores.splits)
qed (use assms in \<open>auto split: list.splits if_splits option.splits recvres.splits\<close>)

lemma rank_signal: "rank (handleCtrlC s) = rank s"
  by (simp add: rank_def)

interpretation interrupted: terminating_steps
  "\<lambda>s. \<exists>crs. s = start_sys su crs \<and> runs_ok su crs" int_step "int_inv su" int_rank for su
proof
  show "\<exists>crs. s = start_sys su crs \<and> runs_ok su crs \<Longrightarrow> int_inv su s" for s
    using start_inv by blast
  show "int_step s t \<Longrightarrow> int_inv su s \<Longrightarrow> int_inv su t" for s t
    by (erule int_stepE) (blast elim: sys_stepE intro: sched_inv_move, simp add: signal_inv)
  show "int_step s t \<Longrightarrow> int_inv su s \<Longrightarrow> int_rank t < int_rank s" for s t
  proof (erule int_stepE)
    assume "sys_step s t" "int_inv su s"
    then obtain m where m: "sys_move m s = Some t" by (blast elim: sys_stepE)
    from rank_move [OF m \<open>int_inv su s\<close>] cancelled_stays [OF m] show ?thesis
      by (auto simp: int_rank_def)
  qed (simp add: int_rank_def rank_signal)
qed

interpretation dial_spec: refines
  "\<lambda>s. \<exists>crs. s = start_sys su crs \<and> runs_ok su crs" int_step "int_inv su" spec_step spec_view for su
proof
  show "int_step s t \<Longrightarrow> int_inv su s \<Longrightarrow> spec_step\<^sup>=\<^sup>= (spec_view s) (spec_view t)" for s t
  proof (erule int_stepE)
    assume "sys_step s t" "int_inv su s"
    then show ?thesis by (elim sys_stepE) (rule move_refines)
  qed (simp add: spec_view_def)
qed

lemma int_reach: "runs_ok su crs \<Longrightarrow> int_step\<^sup>*\<^sup>* (start_sys su crs) s \<Longrightarrow> int_inv su s"
  using interrupted.inv_reachable by blast

lemma int_tot:
  assumes "runs_ok su crs" and "int_step\<^sup>*\<^sup>* (start_sys su crs) s"
  shows "tot_results s = tot_results (start_sys su crs)"
  using assms(2)
proof (induction rule: rtranclp_induct)
  case (step t u)
  have "tot_results u = tot_results t" using step(2)
  proof (rule int_stepE)
    assume "sys_step t u"
    with int_reach [OF assms(1) step(1)] show ?thesis by (auto elim!: sys_stepE dest: tot_move)
  qed (simp add: tot_results_def)
  with step(3) show ?case by simp
qed simp

text \<open>What is left when nothing can move: a lease that nobody will take.\<close>

lemma waiting_chan:
  assumes "waits_for_saver i j s" and "sched_inv c4 c6 s"
  shows "c4 \<or> c6"
proof -
  from assms(1) obtain a es where a: "i < length (threads s)" "j < length (ct_live (threads s ! i))"
    "ct_live (threads s ! i) ! j = a # es" "blocked_save s a"
    by (auto simp: waits_for_saver_def)
  have "threads_inv c4 c6 s" using assms(2) by (simp add: sched_inv_def)
  from live_thread(2) [OF this a(1-3)] a(4) show ?thesis
    by (cases "(s, a)" rule: blocked_save.cases) auto
qed

lemma int_stuck:
  assumes "int_inv su s" and "main_at s \<noteq> MDone" and "\<not> (\<exists>t. int_step s t)"
  shows "SaveLease su \<and> cancelled s \<and> \<not> saver_on s \<and> (\<exists>i j. waits_for_saver i j s)"
proof -
  have c: "\<not> crashed s" using assms(1) by (simp add: sched_inv_def)
  then have "\<not> (\<exists>m t. sys_move m s = Some t)"
    using assms(2,3) int_step.prog sys_step.move by blast
  with sched_progress [OF assms(1,2)] obtain i j where w: "\<not> saver_on s" "waits_for_saver i j s"
    by blast
  moreover from waiting_chan [OF w(2) assms(1)] have "SaveLease su" by (auto simp: has_chan_def)
  moreover have "cancelled s" using assms(2,3) c int_step.signal by blast
  ultimately show ?thesis by blast
qed

section \<open>A run that hangs\<close>

lemma full_send: "full_chan (Some q) \<Longrightarrow> chan_send q x = SendBlocks"
  by (simp add: full_chan_def chan_send_def)

lemma do_ev_full:
  assumes "do_ev i e s = Some t"
  shows "full_chan (s4chan s) \<Longrightarrow> s4chan t = s4chan s" "full_chan (s6chan s) \<Longrightarrow> s6chan t = s6chan s"
  using assms
  by (cases "(i, e, s)" rule: do_ev.cases;
      auto simp: full_send split: sendres.splits option.splits if_splits)+

lemma blocked_none: "blocked_save s (Do e) \<Longrightarrow> do_ev i e (popped_sys i j es s) = None"
  by (cases "(s, Do e)" rule: blocked_save.cases) (auto simp: full_send split: option.split)

lemma blocked_cong:
  assumes "blocked_save s a" and "full_chan (s4chan s) \<Longrightarrow> s4chan t = s4chan s"
    and "full_chan (s6chan s) \<Longrightarrow> s6chan t = s6chan s"
  shows "blocked_save t a"
  using assms by (cases "(s, a)" rule: blocked_save.cases) auto

lemma live_update:
  assumes "ct_live x = ct_live (ts ! i)"
  shows "ct_live (ts[i := x] ! k) = ct_live (ts ! k)"
  using assms by (cases "i < length ts") (auto simp: nth_list_update list_update_beyond)

lemma do_ev_threads:
  assumes "do_ev i e s = Some t"
  shows "length (threads t) = length (threads s)" "ct_live (threads t ! k) = ct_live (threads s ! k)"
proof -
  consider "threads t = threads s" | "t = upd i (\<lambda>t. t\<lparr>ct_wg := ct_wg t - 1\<rparr>) s"
    using assms by (cases "(i, e, s)" rule: do_ev.cases) (auto split: sendres.splits option.splits if_splits)
  then have "length (threads t) = length (threads s) \<and> ct_live (threads t ! k) = ct_live (threads s ! k)"
    by cases (simp_all add: live_update)
  then show "length (threads t) = length (threads s)" "ct_live (threads t ! k) = ct_live (threads s ! k)"
    by simp_all
qed

lemma waits_cong:
  assumes "waits_for_saver i j s" and "length (threads s) \<le> length (threads t)"
    and "ct_live (threads t ! i) = ct_live (threads s ! i)"
    and "full_chan (s4chan s) \<Longrightarrow> s4chan t = s4chan s" "full_chan (s6chan s) \<Longrightarrow> s6chan t = s6chan s"
  shows "waits_for_saver i j t"
proof -
  from assms(1) obtain a es where a: "i < length (threads s)" "j < length (ct_live (threads s ! i))"
    "ct_live (threads s ! i) ! j = a # es" "blocked_save s a"
    by (auto simp: waits_for_saver_def)
  from a(1) assms(2) have "i < length (threads t)" by simp
  moreover have "blocked_save t a" by (rule blocked_cong [OF a(4) assms(4,5)])
  ultimately show ?thesis using a(2,3) by (simp add: waits_for_saver_def assms(3))
qed


lemma waits_Act:
  assumes "sys_move (Act k l) s = Some t" and "waits_for_saver i j s"
  shows "waits_for_saver i j t"
proof -
  from assms(2) obtain a0 es0 where w: "i < length (threads s)" "j < length (ct_live (threads s ! i))"
    "ct_live (threads s ! i) ! j = a0 # es0" "blocked_save s a0"
    by (auto simp: waits_for_saver_def)
  from act_move [OF assms(1)] obtain a es where a: "k < length (threads s)"
    "l < length (ct_live (threads s ! k))" "ct_live (threads s ! k) ! l = a # es"
    "case a of Crash \<Rightarrow> t = s\<lparr>crashed := True\<rparr> | Do e \<Rightarrow> do_ev k e (popped_sys k l es s) = Some t"
    by blast
  show ?thesis
  proof (cases a)
    case Crash
    with a(4) assms(2) show ?thesis by (auto intro: waits_cong)
  next
    case (Do e)
    let ?p = "popped_sys k l es s"
    have d: "do_ev k e ?p = Some t" using a(4) Do by simp
    have n: "\<not> (k = i \<and> l = j)"
      using d w(3,4) a(3) Do blocked_none [of s e k l es] by auto
    have "length (ct_live (threads ?p ! i)) = length (ct_live (threads s ! i))
        \<and> ct_live (threads ?p ! i) ! j = ct_live (threads s ! i) ! j"
      using n a(1) by (cases "k = i") (auto simp: nth_list_update)
    moreover have "blocked_save ?p a0" by (rule blocked_cong [OF w(4)]) simp_all
    ultimately have "waits_for_saver i j ?p" using w(1-3) by (simp add: waits_for_saver_def)
    then show ?thesis
      by (rule waits_cong) (simp_all add: do_ev_threads [OF d] do_ev_full [OF d])
  qed
qed

lemma waits_move:
  assumes "sys_move m s = Some t" and "waits_for_saver i j s" and "\<not> saver_on s" and "sched_inv c4 c6 s"
  shows "waits_for_saver i j t"
proof -
  have i: "i < length (threads s)" using assms(2) by (simp add: waits_for_saver_def)
  have frame: ?thesis
    if "length (threads s) \<le> length (threads t)" "ct_live (threads t ! i) = ct_live (threads s ! i)"
      "s4chan t = s4chan s" "s6chan t = s6chan s"
    using that assms(2) by (auto intro: waits_cong)
  show ?thesis
  proof (cases m)
    case (Act k l)
    with waits_Act assms(1,2) show ?thesis by blast
  next
    case (Spawn k)
    with assms(1) obtain sc scs where *: "k < length (threads s)"
      "t = upd k (\<lambda>t. t\<lparr>ct_todo := scs, ct_live := ct_live t @ [sc], ct_wg := ct_wg t + 1\<rparr>) s"
      by (auto split: if_splits list.splits)
    from assms(2) obtain a es where w: "j < length (ct_live (threads s ! i))"
      "ct_live (threads s ! i) ! j = a # es" "blocked_save s a"
      by (auto simp: waits_for_saver_def)
    have "blocked_save t a" by (rule blocked_cong [OF w(3)]) (simp_all add: *(2))
    with i w(1,2) *(1) show ?thesis
      by (cases "k = i") (auto simp: waits_for_saver_def *(2) nth_append)
  next
    case MainNext
    then have "main_next s = Some t" using assms(1) by simp
    from main_next_frame [OF this] show ?thesis by (intro frame) simp_all
  next
    case Collect
    with assms(1) have "threads t = threads s \<and> s4chan t = s4chan s \<and> s6chan t = s6chan s"
      by (auto split: if_splits recvres.splits)
    then show ?thesis by (intro frame) simp_all
  next
    case StartClient
    with assms(1) obtain cr crs where "t = s\<lparr>pending := crs, threads := threads s @ [new_thread cr],
        main_wg := main_wg s + 1\<rparr>"
      by (auto split: list.splits if_splits)
    with i show ?thesis by (intro frame) (simp_all add: nth_append)
  next
    case (ClientDone k)
    with assms(1) have "t = (upd k (\<lambda>t. t\<lparr>ct_done := True\<rparr>) s)\<lparr>main_wg := main_wg s - 1\<rparr>"
      by (simp split: if_splits)
    then show ?thesis by (intro frame) (simp_all add: live_update)
  next
    case AllStarted
    with assms(1) have "t = s\<lparr>main_at := MWait\<rparr>" by (simp split: if_splits)
    then show ?thesis by (intro frame) simp_all
  qed (use assms(1,3) in simp_all)
qed

lemma saver_stays_off:
  assumes "sys_move m s = Some t" and "\<not> saver_on s"
  shows "\<not> saver_on t"
proof (cases m)
  case (Act i j)
  with act_move [of i j s t] assms(1) obtain a es where
    "case a of Crash \<Rightarrow> t = s\<lparr>crashed := True\<rparr> | Do e \<Rightarrow> do_ev i e (popped_sys i j es s) = Some t"
    by blast
  moreover have "do_ev i e u = Some t \<Longrightarrow> saver_on t = saver_on u" for e u
    by (cases "(i, e, u)" rule: do_ev.cases) (auto split: sendres.splits option.splits if_splits)
  ultimately show ?thesis using assms(2) by (cases a) auto
next
  case MainNext
  then have "main_next s = Some t" using assms(1) by simp
  from main_next_frame [OF this] assms(2) show ?thesis by simp
qed (use assms in \<open>auto split: list.splits if_splits option.splits recvres.splits\<close>)

lemma waiting_not_done:
  assumes "waits_for_saver i j s" and "sched_inv c4 c6 s"
  shows "main_at s \<noteq> MDone"
proof -
  from assms(1) obtain a es where a: "i < length (threads s)" "j < length (ct_live (threads s ! i))"
    "ct_live (threads s ! i) ! j = a # es"
    by (auto simp: waits_for_saver_def)
  have "threads_inv c4 c6 s" using assms(2) by (simp add: sched_inv_def)
  from live_thread(5) [OF this a] assms(2) show ?thesis by (auto simp: sched_inv_def main_inv_def)
qed

text \<open>Once the saver is gone, a transaction at a full channel stays there, and the run goes on for ever.\<close>

lemma hangs:
  assumes "int_step\<^sup>*\<^sup>* s t" and "waits_for_saver i j s" and "\<not> saver_on s" and "int_inv su s"
  shows "waits_for_saver i j t \<and> \<not> saver_on t \<and> int_inv su t"
  using assms(1)
proof (induction rule: rtranclp_induct)
  case (step t u)
  from step(2) show ?case
  proof (rule int_stepE)
    assume "sys_step t u"
    then obtain m where "sys_move m t = Some u" by (blast elim: sys_stepE)
    with step(3) waits_move saver_stays_off sched_inv_move show ?thesis by blast
  next
    assume "u = handleCtrlC t"
    with step(3) show ?thesis by (auto intro: waits_cong signal_inv)
  qed
qed (use assms(2-4) in simp)

section \<open>Properties\<close>

text \<open>
  C6: a dial run, interrupted or not, implements its specification: seen from outside it does
  nothing but count the results of the dials, each once, and store their leases, each at most once,
  and it is over only when every result has been counted.
\<close>

theorem dora_refines_spec:
  assumes "save_consistent su" and "\<forall>dc \<in> set dcs. calm W su dc"
    and "int_step\<^sup>*\<^sup>* (start_sys su (dora_runs W su dcs)) s"
  shows "spec_step\<^sup>*\<^sup>*
    \<lparr>sp_todo = mset (concat (map results (dial_events W su dcs))), sp_got = {#},
     sp_leases = mset (concat (map saves (dial_events W su dcs))), sp_stored = {#}, sp_over = False\<rparr>
    (spec_view s)"
proof -
  let ?s = "start_sys su (dora_runs W su dcs)"
  note ok = dora_runs_ok [OF assms(1,2)]
  have "tot_results ?s = mset (concat (map results (dial_events W su dcs)))"
    using start_tot(1) dora_load [OF assms(2) script_load_res] by metis
  moreover have "tot_saves ?s = mset (concat (map saves (dial_events W su dcs)))"
    using start_tot(2) dora_load [OF assms(2) script_load_save] by metis
  moreover have "spec_view ?s = \<lparr>sp_todo = tot_results ?s, sp_got = {#}, sp_leases = tot_saves ?s,
      sp_stored = {#}, sp_over = False\<rparr>"
    by (simp add: spec_view_def tot_results_def tot_saves_def start_sys_def)
  ultimately show ?thesis
    using dial_spec.run_refines [OF assms(3) start_inv [OF ok, THEN conjunct1]] by simp
qed

lemma sys_int: "sys_step\<^sup>*\<^sup>* s t \<Longrightarrow> int_step\<^sup>*\<^sup>* s t"
  by (induction rule: rtranclp_induct) (auto intro: rtranclp.rtrancl_into_rtrancl int_step.prog)

theorem dora_refines_spec_witness:
  "spec_step\<^sup>*\<^sup>*
    \<lparr>sp_todo = mset (concat (map results (dial_events (\<lambda>_. example_world) example_run_conf [example_dc]))),
     sp_got = {#},
     sp_leases = mset (concat (map saves (dial_events (\<lambda>_. example_world) example_run_conf [example_dc]))),
     sp_stored = {#}, sp_over = False\<rparr>
    (spec_view example_run_end)"
  by (rule dora_refines_spec [OF example_save_consistent example_calm sys_int [OF example_run_reach]])

text \<open>
  C9: an interrupt at any time makes no dial run panic or run on for ever, and never costs a result:
  no run is longer than the rank of its start and the signal, what stops before its end is a run that
  saves its leases, whose saver the interrupt has ended and one of whose dials waits for it, and a
  run that ends has counted one transaction per dial.
\<close>

theorem interrupted_run:
  assumes "save_consistent su" and "\<forall>dc \<in> set dcs. calm W su dc"
    and "(int_step ^^ n) (start_sys su (dora_runs W su dcs)) s"
  shows "\<not> crashed s \<and> n \<le> rank (start_sys su (dora_runs W su dcs)) + 1
    \<and> (main_at s = MDone \<or> (\<exists>t. int_step s t)
        \<or> (SaveLease su \<and> cancelled s \<and> \<not> saver_on s \<and> (\<exists>i j. waits_for_saver i j s)))
    \<and> (main_at s = MDone \<longrightarrow>
         Total (summary (collectResults f (collected s) (start_collector avg far)))
           = int (length (filter (\<lambda>dc. d4 dc \<noteq> None) dcs) + length (filter (\<lambda>dc. d6 dc \<noteq> None) dcs)))"
proof -
  let ?s = "start_sys su (dora_runs W su dcs)"
  note ok = dora_runs_ok [OF assms(1,2)]
  have r: "int_step\<^sup>*\<^sup>* ?s s" using assms(3) by (metis rtranclp_power)
  note i = int_reach [OF ok r]
  have "n + int_rank s \<le> int_rank ?s"
    using interrupted.bounded_run [OF assms(3)] start_inv [OF ok] by blast
  then have "n \<le> rank ?s + 1" by (simp add: int_rank_def split: if_splits)
  moreover have "\<not> crashed s" using i by (simp add: sched_inv_def)
  moreover have "Total (summary (collectResults f (collected s) (start_collector avg far)))
      = int (length (filter (\<lambda>dc. d4 dc \<noteq> None) dcs) + length (filter (\<lambda>dc. d6 dc \<noteq> None) dcs))"
    if "main_at s = MDone"
    by (rule conjunct2 [OF all_collected [OF assms(2) i that int_tot [OF ok r]]])
  ultimately show ?thesis using int_stuck [OF i] by blast
qed

text \<open>
  Nine clients that save a DHCPv4 lease each: eight leases fill the channel, then the interrupt
  ends the saver, and the ninth dial waits.
\<close>

definition hang_clients :: "DClient list" where
  "hang_clients = replicate 9 (example_dc\<lparr>d6 := None\<rparr>)"

definition hang_start :: sys where
  "hang_start = start_sys example_run_conf (dora_runs (\<lambda>_. example_world) example_run_conf hang_clients)"

definition hang_moves :: "move list" where
  "hang_moves = concat (map (\<lambda>i. [StartClient, Spawn i] @ replicate 4 (Act i 0)) [0, 1, 2, 3, 4, 5, 6, 7])
     @ [StartClient, Spawn 8] @ replicate 3 (Act 8 0)"

definition hang_full :: sys where
  "hang_full = the (run_moves hang_moves hang_start)"

definition hang_stopped :: sys where
  "hang_stopped = (handleCtrlC hang_full)\<lparr>saver_on := False\<rparr>"

lemma hang_calm: "\<forall>dc \<in> set hang_clients. calm (\<lambda>_. example_world) example_run_conf dc"
  by code_simp

lemma hang_run:
  "case run_moves hang_moves hang_start of None \<Rightarrow> False
   | Some t \<Rightarrow> main_at t = MStart \<and> \<not> crashed t \<and> \<not> cancelled t \<and> saver_on t
       \<and> 8 < length (threads t) \<and> 0 < length (ct_live (threads t ! 8))
       \<and> (case ct_live (threads t ! 8) ! 0 of [] \<Rightarrow> False | a # es \<Rightarrow> blocked_save t a)"
  by code_simp

lemma hang_full:
  "run_moves hang_moves hang_start = Some hang_full" "main_at hang_full = MStart" "\<not> crashed hang_full"
  "\<not> cancelled hang_full" "saver_on hang_full" "waits_for_saver 8 0 hang_full"
  using hang_run by (auto simp: hang_full_def waits_for_saver_def split: option.splits list.splits)

lemma hang_reach: "int_step\<^sup>*\<^sup>* hang_start hang_stopped"
proof -
  note 1 = sys_int [OF run_moves_reach [OF hang_full(1)]]
  have 2: "int_step hang_full (handleCtrlC hang_full)"
    using hang_full by (intro int_step.signal) simp_all
  have "sys_move SaverStop (handleCtrlC hang_full) = Some hang_stopped"
    using hang_full by (simp add: hang_stopped_def)
  then have 3: "int_step (handleCtrlC hang_full) hang_stopped"
    using hang_full by (intro int_step.prog sys_step.move [of _ SaverStop]) simp_all
  from 1 2 3 show ?thesis by (meson rtranclp.rtrancl_into_rtrancl)
qed

lemma hang_waits: "waits_for_saver 8 0 hang_stopped"
  by (rule waits_cong [OF hang_full(6)]) (simp_all add: hang_stopped_def)

theorem interrupted_run_witness:
  "\<exists>n. (int_step ^^ n) hang_start hang_stopped
     \<and> n \<le> rank hang_start + 1 \<and> \<not> crashed hang_stopped"
proof -
  from hang_reach obtain n where n: "(int_step ^^ n) hang_start hang_stopped"
    by (metis rtranclp_power)
  from interrupted_run [OF example_save_consistent hang_calm n [unfolded hang_start_def],
      of "\<lambda>a t. a" "()" 99] n
  show ?thesis unfolding hang_start_def by blast
qed

text \<open>
  C18: an interrupt while leases are being saved can hang the program: once the interrupted saver has
  ended, a dial whose lease finds the saver's channel full waits for ever, and the main goroutine,
  which waits for that dial, never returns, however the run goes on.
\<close>

theorem interrupt_hangs:
  assumes "save_consistent su" and "\<forall>dc \<in> set dcs. calm W su dc"
    and "int_step\<^sup>*\<^sup>* (start_sys su (dora_runs W su dcs)) s"
    and "waits_for_saver i j s" and "\<not> saver_on s" and "int_step\<^sup>*\<^sup>* s t"
  shows "waits_for_saver i j t \<and> \<not> saver_on t \<and> main_at t \<noteq> MDone \<and> \<not> crashed t"
proof -
  note i = int_reach [OF dora_runs_ok [OF assms(1,2)] assms(3)]
  from hangs [OF assms(6,4,5) i] waiting_not_done show ?thesis by (auto simp: sched_inv_def)
qed

theorem interrupt_hangs_witness:
  "\<not> (\<exists>t. int_step\<^sup>*\<^sup>* hang_stopped t \<and> main_at t = MDone)"
proof -
  have o: "\<not> saver_on hang_stopped" by (simp add: hang_stopped_def)
  show ?thesis
    using interrupt_hangs [OF example_save_consistent hang_calm hang_reach [unfolded hang_start_def]
      hang_waits o] by blast
qed

end
