(* ===== verification/Report.thy ===== *)
theory Report
  imports Interrupt Output
begin

text \<open>
  What \<open>run\<close> prints at the end of a dial run: the main goroutine prints the summary when the clients
  have ended and the saver has, before it closes the channel of results and joins the collector.
\<close>

section \<open>The channel of results keeps its bound\<close>

lemma chan_keeps_bound:
  "chan_send c x = Sent c' \<Longrightarrow> chan_ok c' \<and> ccap c' = ccap c"
  "chan_recv c = Recv x c' \<Longrightarrow> chan_ok c \<Longrightarrow> chan_ok c' \<and> ccap c' = ccap c"
  using chan_send_SentD [of c x c'] chan_recv_RecvD [of c x c'] by (simp_all add: chan_ok_def)

lemma do_ev_rchan:
  assumes "do_ev i e s = Some t" and "chan_ok (rchan s)"
  shows "chan_ok (rchan t) \<and> ccap (rchan t) = ccap (rchan s)"
  using assms
  by (cases "(i, e, s)" rule: do_ev.cases)
    (auto dest: chan_keeps_bound(1) split: sendres.splits option.splits if_splits)

lemma rchan_move:
  assumes "sys_move m s = Some t" and "chan_ok (rchan s)"
  shows "chan_ok (rchan t) \<and> ccap (rchan t) = ccap (rchan s)"
proof (cases m)
  case (Act i j)
  with act_move [of i j s t] assms(1) obtain a es where
    "case a of Crash \<Rightarrow> t = s\<lparr>crashed := True\<rparr> | Do e \<Rightarrow> do_ev i e (popped_sys i j es s) = Some t"
    by blast
  then show ?thesis
    using assms(2) do_ev_rchan [of i _ "popped_sys i j es s" t] by (cases a) auto
next
  case MainNext
  then have "main_next s = Some t" using assms(1) by simp
  from main_next_frame [OF this] assms(2) show ?thesis by (simp add: chan_ok_def)
next
  case Collect
  with assms show ?thesis
    by (cases "chan_recv (rchan s)") (auto dest: chan_keeps_bound(2) split: if_splits)
qed (use assms in \<open>auto split: list.splits if_splits option.splits\<close>)

lemma int_rchan:
  assumes "int_step\<^sup>*\<^sup>* (start_sys su crs) s"
  shows "chan_ok (rchan s) \<and> ccap (rchan s) = 1024"
  using assms
proof (induction rule: rtranclp_induct)
  case base
  show ?case by (simp add: start_sys_def dialResultChanLen_def)
next
  case (step t u)
  from step(2) show ?case
  proof (rule int_stepE)
    assume "sys_step t u"
    then obtain m where "sys_move m t = Some u" by (blast elim: sys_stepE)
    with rchan_move step(3) show ?thesis by metis
  qed (use step(3) in simp)
qed

section \<open>The report\<close>

text \<open>The text printed when the main goroutine is about to close the channel of results.\<close>

definition printed :: "(int \<Rightarrow> int \<Rightarrow> string) \<Rightarrow> ('mv \<Rightarrow> int) \<Rightarrow> ('mv \<Rightarrow> int \<Rightarrow> 'mv) \<Rightarrow> 'mv \<Rightarrow> gotime
    \<Rightarrow> testSetup \<Rightarrow> sys \<Rightarrow> string option" where
  "printed rate mv_avg mv_add mv far su s =
     run_report (Action su)
       (resultSummary_String rate mv_avg su
          (summary (collectResults mv_add (collected s) (start_collector mv far))))"


text \<open>A run of two dials that prints that there was no transaction.\<close>

definition lag_moves :: "move list" where
  "lag_moves = [StartClient, Spawn 0] @ replicate 7 (Act 0 0) @ [AllStarted, Spawn 0]
     @ replicate 7 (Act 0 1) @ [ClientDone 0, Save6, Save4, MainNext, MainNext, SaverStop, MainNext]"

definition lag_end :: sys where
  "lag_end = the (run_moves lag_moves example_run_start)"


end
