(* ===== verification/Restart.thy ===== *)
theory Restart
  imports Program
begin

text \<open>
  Two runs of the program: a dial run that saves its leases (\<open>run\<close> and \<open>saveLeaseToFiles\<close>), and
  the next start, which reads the file (\<open>main\<close>, \<open>NewSched\<close>). Between them is the file system:
  the map from names to contents that the first run leaves is what the second finds.
\<close>

section \<open>The saver's file\<close>

text \<open>
  What \<open>saveLeaseToFiles\<close> does with the leases it has received when its context is done; \<open>ids\<close> is the
  order in which the encoder visits the table. An error of either step ends the program. The message
  logged at the end is left out.
\<close>

definition saveLeaseToFiles :: "codec_lib \<Rightarrow> (string \<Rightarrow> bytes \<Rightarrow> bool) \<Rightarrow> string \<Rightarrow> clientID list
    \<Rightarrow> saved list \<Rightarrow> (string \<Rightarrow> bytes option) \<Rightarrow> (codec_error, string \<Rightarrow> bytes option) gores" where
  "saveLeaseToFiles C write_ok outfile ids evs files =
     gbind (saveFile C ids (collect_leases evs)) (\<lambda>data.
     if write_ok outfile data then Ok (files(outfile := Some data)) else Fail FileUnwritable)"

lemma saveLeaseToFiles_Ok:
  assumes "saveLeaseToFiles C write_ok outfile ids evs files = Ok files'"
  shows "\<exists>data. saveFile C ids (collect_leases evs) = Ok data \<and> files' outfile = Some data"
  using assms
  by (cases "saveFile C ids (collect_leases evs)") (auto simp: saveLeaseToFiles_def split: if_splits)

section \<open>What the saver has stored\<close>

lemma tot_saves_end:
  assumes "save_consistent su" and "\<forall>dc \<in> set dcs. calm W su dc"
    and "sys_step\<^sup>*\<^sup>* (start_sys su (dora_runs W su dcs)) t" and "main_at t = MDone"
  shows "set (concat (map saves (dial_events W su dcs)))
    = set (stored t) \<union> set (save_buf (s4chan t)) \<union> set (save_buf (s6chan t))"
proof -
  note ok = dora_runs_ok [OF assms(1,2)]
  note i = sched_reach [OF ok assms(3)]
  have "tot_saves t = mset (concat (map saves (dial_events W su dcs)))"
    using tot_reach [OF ok assms(3)] start_tot(2) dora_load [OF assms(2) script_load_save] by metis
  moreover have "tot_saves t = mset (stored t @ save_buf (s4chan t) @ save_buf (s6chan t))"
    by (simp add: tot_saves_def done_empty [OF conjunct1 [OF i] assms(4)])
  ultimately have "mset (stored t @ save_buf (s4chan t) @ save_buf (s6chan t))
      = mset (concat (map saves (dial_events W su dcs)))" by simp
  from mset_eq_setD [OF this] show ?thesis by (simp add: Un_assoc)
qed

lemma last4_some: "Saved4 i l \<in> set evs \<Longrightarrow> last4 i evs \<noteq> None"
  by (induction evs) (auto split: option.split)

lemma last6_some: "Saved6 i l \<in> set evs \<Longrightarrow> last6 i evs \<noteq> None"
  by (induction evs) (auto split: option.split)


text \<open>One client dials over DHCPv4 and saves its lease; encoders for the table it leaves.\<close>

definition restart_vlans :: vlans where
  "restart_vlans = [\<lparr>vlan_id = 100, vlan_etype = 0x8100\<rparr>]"

definition restart_lease :: v4Lease where
  "restart_lease = newV4Lease\<lparr>Lease4 := Some example_lease4, VLANList := restart_vlans\<rparr>"

definition restart_id :: clientID where
  "restart_id = ''02:00:00:00:00:07|100''"

definition restart_stacks :: "(clientID \<times> stack_bytes) list" where
  "restart_stacks = [(restart_id, \<lparr>sb_V4 = Some [3], sb_V6 = None\<rparr>)]"

definition restart_codec :: codec_lib where
  "restart_codec = example_codec
     \<lparr>gob_map := (\<lambda>x. if x = restart_stacks then Some [4] else None),
      ungob_map := (\<lambda>b. if b = [4] then Some restart_stacks else None),
      vlans_bytes := (\<lambda>v. if v = restart_vlans then Some [] else None),
      bytes_vlans := (\<lambda>b. if b = [] then Some restart_vlans else None)\<rparr>"

definition restart_dc :: DClient where
  "restart_dc = example_dc\<lparr>d6 := None\<rparr>"

definition restart_start :: sys where
  "restart_start = start_sys example_run_conf (dora_runs (\<lambda>_. example_world) example_run_conf [restart_dc])"

definition restart_moves :: "move list" where
  "restart_moves = [StartClient, AllStarted, Spawn 0] @ replicate 7 (Act 0 0)
     @ [ClientDone 0, Save4, MainNext, MainNext, SaverStop, MainNext, MainNext, Collect, Collect, MainNext]"

definition restart_end :: sys where
  "restart_end = the (run_moves restart_moves restart_start)"

lemma restart_run:
  "run_moves restart_moves restart_start = Some restart_end" "main_at restart_end = MDone"
  "stored restart_end = [Saved4 restart_id restart_lease]"
proof -
  have "case run_moves restart_moves restart_start of None \<Rightarrow> False
    | Some t \<Rightarrow> main_at t = MDone \<and> stored t = [Saved4 restart_id restart_lease]"
    by code_simp
  then show "run_moves restart_moves restart_start = Some restart_end" "main_at restart_end = MDone"
    "stored restart_end = [Saved4 restart_id restart_lease]"
    by (auto simp: restart_end_def split: option.splits)
qed

lemma restart_codec_law: "codec_law restart_codec"
  using example_codec_law by (auto simp: codec_law_def restart_codec_def split: if_splits)

definition restart_surroundings :: surroundings where
  "restart_surroundings = example_surroundings\<lparr>m_codec := restart_codec\<rparr>"

definition release_cnf :: testSetup where
  "release_cnf = example_cnf\<lparr>Action := actionRelease\<rparr>"

definition restart_files :: "string \<Rightarrow> bytes option" where
  "restart_files = Map.empty(LeaseFile example_run_conf := Some [4])"


end
