(* ===== verification/NdProxy.thy ===== *)
theory NdProxy
  imports Clients
begin

text \<open>
  The neighbour discovery proxy at work (\<open>ndproxy.go\<close>): \<open>recv\<close> reads packets and starts a
  goroutine per packet, \<open>processReq\<close> of \<open>Clients\<close>, which sends at most one answer. Reading and
  sending are \<open>etherconn\<close>'s and enter as the packets read and the outcome of each write.
\<close>

section \<open>The proxy\<close>

record NDPProxy =
  np_targets :: nd_targets
  np_econn :: bytes \<comment> \<open>the address its connection is made with\<close>

definition NewNDPProxyFromRelay :: "nd_targets \<Rightarrow> NDPProxy" where
  "NewNDPProxyFromRelay targets = \<lparr>np_targets = targets, np_econn = [0, 0, 0, 0, 0, 0]\<rparr>"

text \<open>
  What \<open>ReadPkt\<close> still returns (\<open>None\<close> is an error), the running goroutines, the answers
  sent so far, and whether \<open>log.Fatalf\<close> has ended the program.
\<close>

record nd_state =
  nd_input :: "(nd_packet \<times> bytes) option list"
  nd_jobs :: "(nd_packet \<times> bytes) list"
  nd_sent :: "nd_advert list"
  nd_fatal :: bool

definition nd_start :: "(nd_packet \<times> bytes) option list \<Rightarrow> nd_state" where
  "nd_start ins = \<lparr>nd_input = ins, nd_jobs = [], nd_sent = [], nd_fatal = False\<rparr>"

text \<open>A failed write is only logged.\<close>

definition nd_answer :: "NDPProxy \<Rightarrow> (nd_advert \<Rightarrow> bool) \<Rightarrow> nd_packet \<times> bytes \<Rightarrow> nd_advert list" where
  "nd_answer P write_ok job =
     (case processReq (np_targets P) (fst job) (snd job) of
        None \<Rightarrow> []
      | Some a \<Rightarrow> if write_ok a then [a] else [])"

datatype nd_move = RecvPkt | Process nat

fun nd_do :: "NDPProxy \<Rightarrow> (nd_advert \<Rightarrow> bool) \<Rightarrow> nd_move \<Rightarrow> nd_state \<Rightarrow> nd_state option" where
  "nd_do P write_ok RecvPkt s =
     (case nd_input s of
        [] \<Rightarrow> None
      | None # ins \<Rightarrow> Some (s\<lparr>nd_input := ins, nd_fatal := True\<rparr>)
      | Some job # ins \<Rightarrow> Some (s\<lparr>nd_input := ins, nd_jobs := nd_jobs s @ [job]\<rparr>))"
| "nd_do P write_ok (Process i) s =
     (if i < length (nd_jobs s)
      then Some (s\<lparr>nd_jobs := take i (nd_jobs s) @ drop (Suc i) (nd_jobs s),
                   nd_sent := nd_sent s @ nd_answer P write_ok (nd_jobs s ! i)\<rparr>)
      else None)"

inductive nd_step :: "NDPProxy \<Rightarrow> (nd_advert \<Rightarrow> bool) \<Rightarrow> nd_state \<Rightarrow> nd_state \<Rightarrow> bool"
  for P write_ok where
  move: "\<not> nd_fatal s \<Longrightarrow> nd_do P write_ok m s = Some t \<Longrightarrow> nd_step P write_ok s t"

inductive_cases nd_stepE: "nd_step P write_ok s t"

section \<open>Every packet is answered once\<close>

definition nd_answers :: "NDPProxy \<Rightarrow> (nd_advert \<Rightarrow> bool) \<Rightarrow> (nd_packet \<times> bytes) list \<Rightarrow> nd_advert list" where
  "nd_answers P write_ok jobs = concat (map (nd_answer P write_ok) jobs)"

text \<open>
  The packets read are a beginning of the input, cut off by the first error; what they are owed has
  been sent or is what the running goroutines will send.
\<close>

definition nd_inv :: "NDPProxy \<Rightarrow> (nd_advert \<Rightarrow> bool) \<Rightarrow> (nd_packet \<times> bytes) option list \<Rightarrow> nd_state \<Rightarrow> bool" where
  "nd_inv P write_ok ins s \<longleftrightarrow>
     (\<exists>jobs. ins = map Some jobs @ (if nd_fatal s then [None] else []) @ nd_input s
        \<and> mset (nd_sent s) + mset (nd_answers P write_ok (nd_jobs s)) = mset (nd_answers P write_ok jobs))"

lemma nd_answers_append [simp]:
  "nd_answers P w (xs @ ys) = nd_answers P w xs @ nd_answers P w ys"
  "nd_answers P w [] = []" "nd_answers P w (x # xs) = nd_answer P w x @ nd_answers P w xs"
  by (simp_all add: nd_answers_def)

lemma nd_inv_recv:
  assumes "nd_do P w RecvPkt s = Some t" and "\<not> nd_fatal s" and "nd_inv P w ins s"
  shows "nd_inv P w ins t"
proof -
  from assms(2,3) obtain jobs where j: "ins = map Some jobs @ nd_input s"
    "mset (nd_sent s) + mset (nd_answers P w (nd_jobs s)) = mset (nd_answers P w jobs)"
    by (auto simp: nd_inv_def)
  from assms(1) obtain x rest where x: "nd_input s = x # rest"
    "t = (case x of None \<Rightarrow> s\<lparr>nd_input := rest, nd_fatal := True\<rparr>
      | Some job \<Rightarrow> s\<lparr>nd_input := rest, nd_jobs := nd_jobs s @ [job]\<rparr>)"
    by (auto split: list.splits option.splits)
  show ?thesis
  proof (cases x)
    case None
    with j x assms(2) show ?thesis by (auto simp: nd_inv_def)
  next
    case (Some job)
    with j x assms(2) show ?thesis
      unfolding nd_inv_def by (intro exI [of _ "jobs @ [job]"]) (simp flip: add.assoc)
  qed
qed

lemma nd_inv_process:
  assumes "nd_do P w (Process i) s = Some t" and "nd_inv P w ins s"
  shows "nd_inv P w ins t"
proof -
  from assms(1) have i: "i < length (nd_jobs s)"
    and t: "t = s\<lparr>nd_jobs := take i (nd_jobs s) @ drop (Suc i) (nd_jobs s),
                  nd_sent := nd_sent s @ nd_answer P w (nd_jobs s ! i)\<rparr>"
    by (auto split: if_splits)
  have "nd_answers P w (nd_jobs s)
      = nd_answers P w (take i (nd_jobs s)) @ nd_answer P w (nd_jobs s ! i)
        @ nd_answers P w (drop (Suc i) (nd_jobs s))"
    by (subst id_take_nth_drop [OF i]) simp
  with assms(2) show ?thesis by (simp add: nd_inv_def t ac_simps)
qed

interpretation nd_serving: step_invariant "\<lambda>s. s = nd_start ins" "nd_step P w" "nd_inv P w ins"
  for ins P w
proof
  show "s = nd_start ins \<Longrightarrow> nd_inv P w ins s" for s
    by (auto simp: nd_inv_def nd_start_def intro: exI [of _ "[]"])
  show "nd_step P w s t \<Longrightarrow> nd_inv P w ins s \<Longrightarrow> nd_inv P w ins t" for s t
  proof (erule nd_stepE)
    fix m
    assume "\<not> nd_fatal s" "nd_do P w m s = Some t" "nd_inv P w ins s"
    then show ?thesis using nd_inv_recv nd_inv_process by (cases m) blast+
  qed
qed

lemma nd_quiet:
  assumes "\<not> (\<exists>t. nd_step P w s t)" and "\<not> nd_fatal s"
  shows "nd_input s = []" "nd_jobs s = []"
proof -
  from assms have n: "nd_do P w m s = None" for m
    using nd_step.move by (metis not_None_eq)
  from n [of RecvPkt] show "nd_input s = []" by (auto split: list.splits option.splits)
  from n [of "Process 0"] show "nd_jobs s = []" by (auto split: if_splits)
qed

lemma nd_rest: "nd_input s = [] \<Longrightarrow> nd_jobs s = [] \<Longrightarrow> nd_do P w m s = None"
  by (cases m) simp_all

section \<open>The property\<close>

text \<open>
  C13: whatever the order in which its goroutines run, the proxy of a fresh start never sends an
  answer it does not owe and, once it rests, has answered every packet it was given, each with its
  one answer (as far as the write succeeds); it rests with packets unanswered only because a read
  has failed, which ends the whole program.
\<close>

theorem nd_proxy_serves:
  assumes "(nd_step (NewNDPProxyFromRelay targets) write_ok)\<^sup>*\<^sup>* (nd_start ins) s"
  shows "\<exists>jobs. ins = map Some jobs @ (if nd_fatal s then [None] else []) @ nd_input s
    \<and> mset (nd_sent s) \<subseteq># mset (filter write_ok (List.map_filter (\<lambda>(p, mac). processReq targets p mac) jobs))
    \<and> ((\<exists>t. nd_step (NewNDPProxyFromRelay targets) write_ok s t) \<or> nd_fatal s
       \<or> (ins = map Some jobs
          \<and> mset (nd_sent s) = mset (filter write_ok
              (List.map_filter (\<lambda>(p, mac). processReq targets p mac) jobs))))"
proof -
  let ?P = "NewNDPProxyFromRelay targets"
  from nd_serving.inv_reachable [OF refl assms] obtain jobs where
    j: "ins = map Some jobs @ (if nd_fatal s then [None] else []) @ nd_input s"
      "mset (nd_sent s) + mset (nd_answers ?P write_ok (nd_jobs s)) = mset (nd_answers ?P write_ok jobs)"
    by (auto simp: nd_inv_def)
  have a: "nd_answers ?P write_ok jobs
      = filter write_ok (List.map_filter (\<lambda>(p, mac). processReq targets p mac) jobs)" for jobs
    by (induction jobs)
      (auto simp: nd_answer_def NewNDPProxyFromRelay_def map_filter_simps split: option.split prod.split)
  have "mset (nd_sent s) = mset (nd_answers ?P write_ok jobs) \<and> ins = map Some jobs"
    if "\<not> (\<exists>t. nd_step ?P write_ok s t)" "\<not> nd_fatal s"
    using nd_quiet [OF that] j that(2) by simp
  moreover from j(2) have "mset (nd_sent s) \<subseteq># mset (nd_answers ?P write_ok jobs)"
    by (metis mset_subset_eq_add_left)
  ultimately show ?thesis using j(1) unfolding a by blast
qed

text \<open>One solicitation for a known address and one for another.\<close>

definition example_targets :: nd_targets where
  "example_targets = [V6Addr 7 \<mapsto> \<lparr>HwAddr = [2, 0, 0, 0, 0, 7], Vlans = []\<rparr>]"

definition example_input :: "(nd_packet \<times> bytes) option list" where
  "example_input = [Some (\<lparr>nd_src = V6Addr 1, nd_target = Some (V6Addr 7)\<rparr>, [9]),
     Some (\<lparr>nd_src = V6Addr 1, nd_target = Some (V6Addr 8)\<rparr>, [9])]"

definition example_nd :: "nd_move \<Rightarrow> nd_state \<Rightarrow> nd_state" where
  "example_nd m s = the (nd_do (NewNDPProxyFromRelay example_targets) (\<lambda>_. True) m s)"

definition example_served :: nd_state where
  "example_served = example_nd (Process 0) (example_nd (Process 1) (example_nd RecvPkt
     (example_nd RecvPkt (nd_start example_input))))"

lemma example_nd_step:
  assumes "\<not> nd_fatal s \<and> \<not> Option.is_none (nd_do (NewNDPProxyFromRelay example_targets) (\<lambda>_. True) m s)"
  shows "nd_step (NewNDPProxyFromRelay example_targets) (\<lambda>_. True) s (example_nd m s)"
  using assms by (intro nd_step.move [of _ _ _ m]) (auto simp: example_nd_def Option.is_none_def)

lemma example_nd_reach:
  "(nd_step (NewNDPProxyFromRelay example_targets) (\<lambda>_. True))\<^sup>*\<^sup>* (nd_start example_input) example_served"
proof -
  let ?R = "nd_step (NewNDPProxyFromRelay example_targets) (\<lambda>_. True)"
  have "?R (nd_start example_input) (example_nd RecvPkt (nd_start example_input))"
    "?R (example_nd RecvPkt (nd_start example_input))
        (example_nd RecvPkt (example_nd RecvPkt (nd_start example_input)))"
    "?R (example_nd RecvPkt (example_nd RecvPkt (nd_start example_input)))
        (example_nd (Process 1) (example_nd RecvPkt (example_nd RecvPkt (nd_start example_input))))"
    "?R (example_nd (Process 1) (example_nd RecvPkt (example_nd RecvPkt (nd_start example_input))))
        example_served"
    unfolding example_served_def by (rule example_nd_step, code_simp)+
  then show ?thesis by (meson converse_rtranclp_into_rtranclp rtranclp.rtrancl_refl)
qed

theorem nd_proxy_serves_witness:
  "length (nd_sent example_served) = 1 \<and> nd_input example_served = []"
proof -
  have e: "nd_input example_served = []" "\<not> nd_fatal example_served" by code_simp+
  have j: "jobs = map the example_input" if "example_input = map Some jobs" for jobs
    unfolding that by simp
  have n: "\<not> (\<exists>t. nd_step (NewNDPProxyFromRelay example_targets) (\<lambda>_. True) example_served t)"
  proof -
    have "nd_jobs example_served = []" by code_simp
    with e(1) nd_rest show ?thesis by (auto elim!: nd_stepE)
  qed
  have l: "length (filter (\<lambda>_. True) (List.map_filter (\<lambda>(p, mac). processReq example_targets p mac)
      (map the example_input))) = 1"
    by code_simp
  from nd_proxy_serves [OF example_nd_reach] n e(2) have
    "mset (nd_sent example_served) = mset (filter (\<lambda>_. True)
       (List.map_filter (\<lambda>(p, mac). processReq example_targets p mac) (map the example_input)))"
    using j by metis
  from arg_cong [OF this, of size] l e(1) show ?thesis by simp
qed

end
