(* ===== verification/Spec2Isabelle.thy ===== *)
theory Spec2Isabelle
  imports FlapSafe Relay Report Restart NdProxy
begin

text \<open>
  Verification of \<open>dhcplt\<close>, a DHCP load tester: it simulates many DHCP clients on one
  interface, each with its own MAC address and VLAN tags, lets them get, release, renew or rebind
  leases over DHCPv4 and DHCPv6, and counts the outcomes.

  \<^bold>\<open>The program.\<close> \<open>main\<close> (\<open>dhcplt.go\<close>) reads a configuration, validates it
  (\<open>testSetup.init\<close>, \<open>conf.go\<close>), makes the scheduler (\<open>NewSched\<close>, \<open>sched.go\<close>) and
  runs it (\<open>Sched.run\<close>). For a dial run \<open>NewSched\<close> generates one configuration per client
  (\<open>genClientConfigurations\<close>, \<open>setup.go\<close>), makes its DHCP clients and files them under an
  identifier computed from the endpoint's key (\<open>getClientIDFromL2Key\<close>, \<open>lease.go\<close>); for a
  release, renewal or rebinding it makes one client per entry of the lease file
  (\<open>loadLeaseFromFile\<close>). \<open>run\<close> starts a goroutine per client; that one starts one per
  protocol (\<open>dialAll\<close>, \<open>threeRAll\<close>), which exchanges the messages (\<open>dialv4\<close>,
  \<open>dialv6\<close>, \<open>releasev4\<close>, \<open>releaseOrRenewV6\<close>, \<open>renewOrRebindv4\<close>), hands its lease to
  the saver (\<open>saveLeaseToFiles\<close>) and its result to the collector (\<open>collectResults\<close>).
  When DHCPv6 is to arrive relayed, a client talks over an in-memory connection
  (\<open>conpair/conpair.go\<close>) to a relay agent of its own (\<open>dhcpv6relay/relay.go\<close>). After the
  dial run the clients may flap: release and dial again until the program is stopped.

  \<^bold>\<open>The theories.\<close>

    \<^item> \<open>Dhcplt_Prelude\<close>: outcomes of Go calls (a value, an error, a panic), 64-bit
      integers and times, buffered channels; the locales \<open>fifo\<close> (a first-in first-out channel),
      \<open>step_invariant\<close>, \<open>terminating_steps\<close> and \<open>refines\<close> (an invariant and a rank of a step
      relation, a simulation of it by an abstract one).
    \<^item> \<open>Go_Std\<close>: what the program uses of Go's standard library, written out: numbers as
      text, splitting strings, addresses.
    \<^item> \<open>Dhcp_Types\<close>: the data of the DHCP and Ethernet libraries. What those compute is a
      parameter throughout: records of functions such as \<open>v6api\<close>, \<open>world\<close>,
      \<open>netlib\<close>, \<open>codec_lib\<close>, \<open>relay_api\<close>, with the documented behaviour a property
      relies on as a named hypothesis (\<open>appends_options\<close>, \<open>mac_law\<close>, \<open>key_law\<close>,
      \<open>lla_law\<close>, \<open>codec_law\<close>, \<open>get_law\<close>).
    \<^item> \<open>Conf\<close>: \<open>testSetup\<close> with its defaults, \<open>init\<close> stage by stage, the text codecs
      of actions, options and message types (\<open>conf.go\<close>, \<open>createPktRelay\<close> of \<open>dhcplt.go\<close>).
      Validation succeeds exactly on \<open>conf_acceptable\<close> configurations and then establishes
      \<open>setup_ok\<close>.
    \<^item> \<open>ClientGen\<close>: \<open>genClientConfigurations\<close> with its closures (\<open>setup.go\<close>): number,
      MAC addresses, VLAN identifiers and templates of the clients.
    \<^item> \<open>ClientId\<close>: \<open>getClientIDFromL2Key\<close> (\<open>lease.go\<close>), faithful on MAC address and
      VLAN identifiers.
    \<^item> \<open>Summary\<close>: \<open>resultSummary\<close> and \<open>collectResults\<close>: the counters over any list
      of results.
    \<^item> \<open>Output\<close>: what is printed of it: durations, the summary, the reports of \<open>run\<close>, the log
      messages of \<open>MyLog\<close> (\<open>common/common.go\<close>).
    \<^item> \<open>Lease\<close>: leases, their addresses, \<open>Apply\<close>, \<open>Genv6Release\<close> and the saver's
      table as a \<open>lease_table\<close> (\<open>lease.go\<close>).
    \<^item> \<open>Messages\<close>: \<open>buildSolicit\<close>, \<open>NewRequestFromAdv\<close>, the check of an answer.
    \<^item> \<open>Dial\<close>: every transaction of a client as the list of its effects and its outcome. The
      locale \<open>transaction\<close> (one result, then \<open>Done\<close>) is interpreted on all five.
    \<^item> \<open>Clients\<close>: \<open>NewSched\<close>, router solicitation, \<open>createV4OtherClnt\<close>,
      \<open>createV6OtherClnt\<close>, and the neighbour discovery proxy's answer (\<open>ndproxy.go\<close>).
    \<^item> \<open>NdProxy\<close>: the proxy at work: its receive loop and the goroutines it starts, as a machine
      that answers every packet it reads once.
    \<^item> \<open>Sched\<close> and \<open>Run\<close>: \<open>Sched.run\<close> as a machine \<open>sys\<close> whose moves are those of
      the main goroutine, the clients', the transactions', the collector and the saver; its
      invariant \<open>sched_inv\<close>, the accounting of what is still to happen (\<open>load\<close>), its rank and
      progress. From these: a dial run is free of panics and deadlocks, ends, and loses neither
      results nor leases.
    \<^item> \<open>Interrupt\<close>: the same machine with \<open>handleCtrlC\<close> (\<open>dhcplt.go\<close>) at any time. The
      abstract run \<open>spec_step\<close> counts results and stores leases and may end when all results are
      counted; the machine refines it. What an interrupt can cost: a dial that waits for the saver
      it has stopped hangs the program.
    \<^item> \<open>Report\<close>: the report of a dial run may come before its last results are counted.
    \<^item> \<open>Typing\<close>: what makes a server's answers well typed (\<open>typed_world\<close>) and a client wired
      for its dials (\<open>client_wired\<close>); the clients of \<open>NewSched\<close> are, and then no dial panics.
    \<^item> \<open>LeaseFile\<close>: the binary forms of leases, the file and its reading back
      (\<open>lease.go\<close>, \<open>v4lease.go\<close>), up to the clients of the next start.
    \<^item> \<open>Restart\<close>: the end of \<open>saveLeaseToFiles\<close>; a dial run, the file system it leaves, and the
      clients of the next start.
    \<^item> \<open>Program\<close>: the start and the end of \<open>main\<close>, with what becomes of its errors, and a dial
      run from its configuration to the summary.
    \<^item> \<open>Flap\<close> and \<open>FlapRun\<close>: the flapping part of \<open>run\<close> as a machine \<open>fsys\<close>, and
      what it does over whole runs; \<open>FlapSafe\<close>: when it never panics.
    \<^item> \<open>ConPair\<close>: the in-memory connection with its timers as a step relation; each direction
      refines \<open>fifo\<close>.
    \<^item> \<open>Relay\<close>: the relay agent's two receive loops, interpretations of \<open>packet_loop\<close>, and
      their composition with \<open>ConPair\<close>.

  \<^bold>\<open>State and effects.\<close> Goroutines interleave at the effects that others can see: sends and
  receives on channels, wait groups, message exchanges, closing. A transaction's own computation
  is one function from the client and the library's answers (\<open>world\<close>) to its effects. A blocked
  operation is a move that is not possible (\<open>None\<close>), a panic or \<open>log.Fatal\<close> a state in
  which nothing moves any more. In \<open>Flap\<close> the world may differ from one turn to the next.

  \<^bold>\<open>Bounds.\<close> There is no fuel: all functions terminate, and the machines that may run for
  ever are step relations. A dial run has no more steps than \<open>rank\<close> of its start, which adds up
  the effects of all transactions, the moves that start and end goroutines and what the
  channels hold; flapping has none more than \<open>flap_rank\<close> once its context is done. Three tries
  of a release, ten of the VLAN search, three reads of a router advertisement, 32 packets in a
  connection, 1024 results and eight leases in their channels are the code's own limits.

  \<^bold>\<open>Not modelled.\<close> The configuration library \<open>shouchan\<close>, which reads the file and the command
  line, and the profiling server; the parsing and serialising of packets and messages (gopacket, the
  DHCP libraries, \<open>encoding/gob\<close> on plain structs), the kernel interface, the packet
  relays and whether a file can be written, which are parameters; the progress line the collector
  prints. Sleeping is left out, except for the length of a flapping interval: the
  machines allow every order of moves, so any timing is covered. The float behind the moving average
  and the text of the setup rate are opaque values. An interrupt is modelled for dial runs and for
  flapping; a renewal or rebinding only hands its context to the DHCPv4 library, a release ignores it.
\<close>

end
